theory Spec2Isabelle
  imports Complex_Main
begin

section \<open>Procedural asteroid generation (AAsteroidActor)\<close>

text \<open>
  A shallow embedding of \<^verbatim>\<open>AsteroidActor.cpp\<close>. Numbers of type \<^verbatim>\<open>float\<close> and
  \<^verbatim>\<open>double\<close> are modelled as \<^typ>\<open>real\<close> (exact arithmetic, no rounding);
  \<^verbatim>\<open>int32\<close> values are \<^typ>\<open>int\<close>, and a \<^verbatim>\<open>TArray\<close> is a list whose indices
  are checked as the engine's \<^verbatim>\<open>operator[]\<close> checks them: an invalid index is a
  failure (\<open>None\<close>), not an unspecified value. A \<^verbatim>\<open>TArray\<close> counts its entries in
  \<^verbatim>\<open>int32\<close>: where the source computes an array size that does not fit \<^verbatim>\<open>int32\<close>, or
  adds to an array that already holds \<^verbatim>\<open>INT32_MAX\<close> entries, the run is aborted, which is
  \<open>None\<close> as well. Running out of memory below that limit is not modelled.
\<close>

subsection \<open>FVector and the engine's vector arithmetic\<close>

datatype FVector = FVector (X: real) (Y: real) (Z: real)

definition vec_add :: "FVector \<Rightarrow> FVector \<Rightarrow> FVector" where
  "vec_add a b = FVector (X a + X b) (Y a + Y b) (Z a + Z b)"

definition vec_scale :: "FVector \<Rightarrow> real \<Rightarrow> FVector" where
  "vec_scale v c = FVector (X v * c) (Y v * c) (Z v * c)"

definition DotProduct :: "FVector \<Rightarrow> FVector \<Rightarrow> real" where
  "DotProduct a b = X a * X b + Y a * Y b + Z a * Z b"

definition SizeSquared :: "FVector \<Rightarrow> real" where
  "SizeSquared v = X v * X v + Y v * Y v + Z v * Z v"

definition Size :: "FVector \<Rightarrow> real" where
  "Size v = sqrt (SizeSquared v)"

text \<open>The engine's \<^verbatim>\<open>SMALL_NUMBER\<close>, the default tolerance of \<^verbatim>\<open>FVector::Normalize\<close>.\<close>

definition SMALL_NUMBER :: real where
  "SMALL_NUMBER = 1 / 10 ^ 8"

text \<open>
  \<^verbatim>\<open>FVector::Normalize(Tolerance = SMALL_NUMBER)\<close> of the engine: the vector is scaled
  by the inverse square root of its squared length when that exceeds the tolerance, and
  is left unchanged otherwise.
\<close>

definition Normalize :: "FVector \<Rightarrow> FVector" where
  "Normalize v =
     (let SquareSum = SizeSquared v
      in if SquareSum > SMALL_NUMBER then vec_scale v (1 / sqrt SquareSum) else v)"

text \<open>
  \<^verbatim>\<open>FMath::Clamp(X, Min, Max)\<close> of the engine, \<^verbatim>\<open>X < Min ? Min : X < Max ? X : Max\<close>
  (the later form \<^verbatim>\<open>Max(Min(X, Max), Min)\<close> is the same function when \<^verbatim>\<open>Min <= Max\<close>).
\<close>

definition Clamp :: "real \<Rightarrow> real \<Rightarrow> real \<Rightarrow> real" where
  "Clamp x lo hi = (if x < lo then lo else if x < hi then x else hi)"

subsection \<open>Geometry generation\<close>

definition INT32_MAX :: int where
  "INT32_MAX = 2147483647"

text \<open>\<^verbatim>\<open>NormalizeVertices\<close>: every vertex is normalized in place.\<close>

definition NormalizeVertices :: "FVector list \<Rightarrow> FVector list" where
  "NormalizeVertices Vertices = map Normalize Vertices"

text \<open>
  The edge key of \<^verbatim>\<open>GetMiddlePoint\<close> (and of the unused lambda \<^verbatim>\<open>MakeKey\<close>):
  \<^verbatim>\<open>((int64)small << 32) | (uint32)large\<close>. The shifted value has its low 32 bits
  clear and the zero-extended \<^verbatim>\<open>uint32\<close> has its high 32 bits clear, so the bitwise
  or is their sum.
\<close>

definition MakeKey :: "int \<Rightarrow> int \<Rightarrow> int" where
  "MakeKey a b =
     (let small = min a b; large = max a b
      in small * 2 ^ 32 + large mod 2 ^ 32)"

type_synonym Cache = "int \<rightharpoonup> int"

definition IsValidIndex :: "'a list \<Rightarrow> int \<Rightarrow> bool" where
  "IsValidIndex xs i = (0 \<le> i \<and> i < int (length xs))"

text \<open>
  \<^verbatim>\<open>GetMiddlePoint\<close> returns the index of the middle point and the updated vertex
  buffer and cache. The cache is consulted before the vertex buffer is read.
  \<^verbatim>\<open>Vertices.Add\<close> returns the \<^verbatim>\<open>int32\<close> index of the new entry, so it needs a
  buffer of fewer than \<^verbatim>\<open>INT32_MAX\<close> entries.
\<close>

definition GetMiddlePoint ::
  "int \<Rightarrow> int \<Rightarrow> FVector list \<Rightarrow> Cache \<Rightarrow> (int \<times> FVector list \<times> Cache) option" where
  "GetMiddlePoint p1 p2 Vertices cache =
     (let key = MakeKey p1 p2
      in case cache key of
           Some Found \<Rightarrow> Some (Found, Vertices, cache)
         | None \<Rightarrow>
             if IsValidIndex Vertices p1 \<and> IsValidIndex Vertices p2 then
               let point1 = Vertices ! nat p1;
                   point2 = Vertices ! nat p2;
                   middle = Normalize (vec_scale (vec_add point1 point2) (1 / 2));
                   i = int (length Vertices)
               in if i < INT32_MAX then Some (i, Vertices @ [middle], cache(key \<mapsto> i))
                  else None
             else None)"

text \<open>
  The loop of \<^verbatim>\<open>SubdivideIcosphere\<close>, \<^verbatim>\<open>for (i = 0; i + 2 < Triangles.Num(); i += 3)\<close>:
  it consumes the index list three entries at a time and stops at an incomplete
  triple. The last argument is \<^verbatim>\<open>newTriangles\<close>.
\<close>

fun subdivide_loop ::
  "int list \<Rightarrow> FVector list \<Rightarrow> Cache \<Rightarrow> int list \<Rightarrow> (FVector list \<times> int list) option" where
  "subdivide_loop (v1 # v2 # v3 # rest) Vertices cache newTriangles =
     (case GetMiddlePoint v1 v2 Vertices cache of
        None \<Rightarrow> None
      | Some (a, Vertices1, cache1) \<Rightarrow>
     (case GetMiddlePoint v2 v3 Vertices1 cache1 of
        None \<Rightarrow> None
      | Some (b, Vertices2, cache2) \<Rightarrow>
     (case GetMiddlePoint v3 v1 Vertices2 cache2 of
        None \<Rightarrow> None
      | Some (c, Vertices3, cache3) \<Rightarrow>
          subdivide_loop rest Vertices3 cache3
            (newTriangles @ [v1, a, c, v2, b, a, v3, c, b, a, b, c]))))"
| "subdivide_loop Triangles Vertices cache newTriangles = Some (Vertices, newTriangles)"

text \<open>
  \<^verbatim>\<open>SubdivideIcosphere\<close> starts with \<^verbatim>\<open>newTriangles.Reserve(Triangles.Num() * 4)\<close>. The
  product is computed in \<^verbatim>\<open>int32\<close>; when it exceeds \<^verbatim>\<open>INT32_MAX\<close> there is no such array
  size, and the new list of twelve entries for every three old ones could not be held.
  When the size fits, so do the loop's counter \<^verbatim>\<open>i\<close> and \<^verbatim>\<open>i + 2\<close>, and every
  \<^verbatim>\<open>newTriangles.Add\<close>.
\<close>

definition SubdivideIcosphere ::
  "FVector list \<Rightarrow> int list \<Rightarrow> (FVector list \<times> int list) option" where
  "SubdivideIcosphere Vertices Triangles =
     (if int (length Triangles) * 4 > INT32_MAX then None
      else subdivide_loop Triangles Vertices Map.empty [])"

text \<open>The golden ratio \<^verbatim>\<open>t\<close>, the twelve vertices and the twenty faces.\<close>

definition golden_t :: real where
  "golden_t = (1 + sqrt 5) / 2"

definition icosahedron_vertices :: "FVector list" where
  "icosahedron_vertices =
     (let t = golden_t in
      [FVector (- 1) t 0, FVector 1 t 0, FVector (- 1) (- t) 0, FVector 1 (- t) 0,
       FVector 0 (- 1) t, FVector 0 1 t, FVector 0 (- 1) (- t), FVector 0 1 (- t),
       FVector t 0 (- 1), FVector t 0 1, FVector (- t) 0 (- 1), FVector (- t) 0 1])"

definition faceIndices :: "int list" where
  "faceIndices =
     [0, 11, 5,  0, 5, 1,  0, 1, 7,  0, 7, 10,  0, 10, 11,
      1, 5, 9,  5, 11, 4,  11, 10, 2,  10, 7, 6,  7, 1, 8,
      3, 9, 4,  3, 4, 2,  3, 2, 6,  3, 6, 8,  3, 8, 9,
      4, 9, 5,  2, 4, 11,  6, 2, 10,  8, 6, 7,  9, 8, 1]"

text \<open>
  The subdivision loop of \<^verbatim>\<open>BuildBaseIcosphere\<close>,
  \<^verbatim>\<open>for (i = 0; i < SubdivisionsLevel; ++i)\<close>, as a count of passes still to run.
\<close>

fun subdivide_times ::
  "nat \<Rightarrow> FVector list \<Rightarrow> int list \<Rightarrow> (FVector list \<times> int list) option" where
  "subdivide_times 0 Vertices Triangles = Some (Vertices, Triangles)"
| "subdivide_times (Suc n) Vertices Triangles =
     (case SubdivideIcosphere Vertices Triangles of
        None \<Rightarrow> None
      | Some (Vertices', Triangles') \<Rightarrow> subdivide_times n Vertices' Triangles')"

text \<open>
  \<^verbatim>\<open>BuildBaseIcosphere\<close>. A level below one runs no pass (\<open>nat\<close> of a negative
  number is 0, as the loop condition \<^verbatim>\<open>0 < SubdivisionsLevel\<close> fails at once).
\<close>

definition BuildBaseIcosphere :: "int \<Rightarrow> (FVector list \<times> int list) option" where
  "BuildBaseIcosphere SubdivisionsLevel =
     (case subdivide_times (nat SubdivisionsLevel)
             (NormalizeVertices icosahedron_vertices) faceIndices of
        None \<Rightarrow> None
      | Some (Vertices, Triangles) \<Rightarrow> Some (NormalizeVertices Vertices, Triangles))"

subsection \<open>The engine's random sources and noise field\<close>

text \<open>
  The pseudo-random generators and the coherent-noise field belong to the engine, not
  to this program, so they are parameters of the model: \<open>'g\<close> is the state of the
  process-wide generator behind \<^verbatim>\<open>FMath::Rand\<close> and \<^verbatim>\<open>FMath::FRand\<close>, \<open>'s\<close> the
  state of an \<^verbatim>\<open>FRandomStream\<close>. Every draw returns the value and the next state.
\<close>

record ('g, 's) engine =
  Rand :: "'g \<Rightarrow> int \<times> 'g"
  FRand :: "'g \<Rightarrow> real \<times> 'g"
  StreamInit :: "int \<Rightarrow> 's"
  StreamRandRange :: "'s \<Rightarrow> int \<Rightarrow> int \<Rightarrow> int \<times> 's"
  StreamFRand :: "'s \<Rightarrow> real \<times> 's"
  PerlinNoise3D :: "FVector \<Rightarrow> real"

text \<open>
  \<^verbatim>\<open>FMath::RandRange(float, float)\<close> of the engine: \<^verbatim>\<open>Min + (Max - Min) * FRand()\<close>,
  drawn from the process-wide generator.
\<close>

definition RandRange_float :: "('g, 's) engine \<Rightarrow> real \<Rightarrow> real \<Rightarrow> 'g \<Rightarrow> real \<times> 'g" where
  "RandRange_float E InMin InMax g =
     (case FRand E g of (r, g') \<Rightarrow> (InMin + (InMax - InMin) * r, g'))"

subsection \<open>Configuration, statistics and the actor\<close>

record FNoiseLayer =
  Scale :: real
  Intensity :: real
  Seed :: int

record FAsteroidStats =
  Radius :: real
  Volume :: real
  Mass :: real
  NoiseLayerSeeds :: "int list"

record AAsteroidActor =
  Subdivisions :: int
  MinRadius :: real
  MaxRadius :: real
  Density :: real
  GlobalSeed :: int
  NoiseLayers :: "FNoiseLayer list"
  MaxDisplacementFraction :: real
  bEnablePhysics :: bool
  AsteroidStats :: FAsteroidStats

subsection \<open>Noise and deformation\<close>

text \<open>
  The body of the vertex loop of \<^verbatim>\<open>ApplyNoiseLayers\<close>, in two parts: the clamped
  scalar \<^verbatim>\<open>displacement\<close>, and the update \<^verbatim>\<open>V = V + normal * displacement\<close>.
\<close>

definition vertex_displacement ::
  "('g, 's) engine \<Rightarrow> FNoiseLayer \<Rightarrow> real \<Rightarrow> real \<Rightarrow> real \<Rightarrow> real \<Rightarrow> FVector \<Rightarrow> real" where
  "vertex_displacement E Layer ox oy oz maxDisplacement V =
     (let samplePoint = vec_add (vec_scale V (Scale Layer)) (FVector ox oy oz);
          nx = PerlinNoise3D E (vec_add samplePoint (FVector 0 0 0));
          ny = PerlinNoise3D E (vec_add samplePoint (FVector (1313 / 100) (3737 / 100) (773 / 100)));
          nz = PerlinNoise3D E (vec_add samplePoint (FVector (9797 / 100) (2121 / 100) (5555 / 100)));
          offset = vec_scale (vec_scale (FVector nx ny nz) (Intensity Layer)) (1 / 2);
          normal = Normalize V;
          displacement = DotProduct offset normal
      in Clamp displacement (- maxDisplacement) maxDisplacement)"

definition displace_vertex ::
  "('g, 's) engine \<Rightarrow> FNoiseLayer \<Rightarrow> real \<Rightarrow> real \<Rightarrow> real \<Rightarrow> real \<Rightarrow> FVector \<Rightarrow> FVector" where
  "displace_vertex E Layer ox oy oz maxDisplacement V =
     vec_add V (vec_scale (Normalize V) (vertex_displacement E Layer ox oy oz maxDisplacement V))"

text \<open>
  One pass of the layer loop for a layer whose seed is known: the three offsets are
  drawn from a stream seeded with it, then every vertex is displaced. Each update reads
  its own vertex only, so the in-place loop is a \<open>map\<close>.
\<close>

definition apply_layer ::
  "('g, 's) engine \<Rightarrow> FNoiseLayer \<Rightarrow> int \<Rightarrow> real \<Rightarrow> FVector list \<Rightarrow> FVector list" where
  "apply_layer E Layer seed MaxDisplacementFrac Vertices =
     (case StreamFRand E (StreamInit E seed) of (r1, layerRand1) \<Rightarrow>
      case StreamFRand E layerRand1 of (r2, layerRand2) \<Rightarrow>
      case StreamFRand E layerRand2 of (r3, layerRand3) \<Rightarrow>
        map (displace_vertex E Layer (r1 * 1000) (r2 * 1000) (r3 * 1000) MaxDisplacementFrac)
          Vertices)"

text \<open>
  The layer loop, with \<^verbatim>\<open>layerIndex\<close> counted up. A layer without an entry in
  \<^verbatim>\<open>LayerSeeds\<close> takes its seed from \<^verbatim>\<open>FMath::Rand()\<close>.
\<close>

fun apply_layers_loop ::
  "('g, 's) engine \<Rightarrow> FNoiseLayer list \<Rightarrow> nat \<Rightarrow> int list \<Rightarrow> real \<Rightarrow> FVector list \<Rightarrow> 'g
     \<Rightarrow> FVector list \<times> 'g" where
  "apply_layers_loop E [] layerIndex LayerSeeds MaxDisplacementFrac Vertices g = (Vertices, g)"
| "apply_layers_loop E (Layer # rest) layerIndex LayerSeeds MaxDisplacementFrac Vertices g =
     (case (if layerIndex < length LayerSeeds then (LayerSeeds ! layerIndex, g) else Rand E g) of
        (seed, g') \<Rightarrow>
          apply_layers_loop E rest (Suc layerIndex) LayerSeeds MaxDisplacementFrac
            (apply_layer E Layer seed MaxDisplacementFrac Vertices) g')"

definition ApplyNoiseLayers ::
  "('g, 's) engine \<Rightarrow> FNoiseLayer list \<Rightarrow> FVector list \<Rightarrow> int list \<Rightarrow> real \<Rightarrow> 'g
     \<Rightarrow> FVector list \<times> 'g" where
  "ApplyNoiseLayers E Layers Vertices LayerSeeds MaxDisplacementFrac g =
     (if length Vertices = 0 then (Vertices, g)
      else apply_layers_loop E Layers 0 LayerSeeds MaxDisplacementFrac Vertices g)"

subsection \<open>Calls into the engine\<close>

text \<open>
  What the actor does to its procedural mesh component and its delegate, recorded in
  order. \<^verbatim>\<open>CreateMeshSection\<close> carries the section index, the vertices, the triangles
  and the collision flag; the normals, UVs, tangents and colours that
  \<^verbatim>\<open>CreateMeshFromData\<close> computes for shading are not recorded.
\<close>

datatype engine_call =
    CreateMeshSection int "FVector list" "int list" bool
  | SetCollisionEnabled
  | SetCollisionObjectType
  | ClearCollisionConvexMeshes
  | AddCollisionConvexMesh "FVector list"
  | SetSimulatePhysics bool
  | SetMassOverrideInKg real bool
  | Broadcast FAsteroidStats
  | UE_LOG real real real

definition CreateMeshFromData :: "FVector list \<Rightarrow> int list \<Rightarrow> bool \<Rightarrow> engine_call list" where
  "CreateMeshFromData Vertices Triangles bCreateCollision =
     CreateMeshSection 0 Vertices Triangles bCreateCollision #
     (if bCreateCollision then [SetCollisionEnabled, SetCollisionObjectType] else [])"

subsection \<open>Statistics\<close>

text \<open>The engine's constant \<^verbatim>\<open>PI\<close>.\<close>

definition PI :: real where
  "PI = pi"

definition CalculateVolumeFromRadius :: "real \<Rightarrow> real" where
  "CalculateVolumeFromRadius R = (4 / 3) * PI * R * R * R"

definition CalculateStats :: "AAsteroidActor \<Rightarrow> real \<Rightarrow> AAsteroidActor" where
  "CalculateStats A ChosenRadius =
     (let S1 = (AsteroidStats A)\<lparr>Radius := ChosenRadius\<rparr>;
          S2 = S1\<lparr>Volume := CalculateVolumeFromRadius ChosenRadius\<rparr>;
          S3 = S2\<lparr>Mass := Volume S2 * Density A\<rparr>;
          S4 = S3\<lparr>NoiseLayerSeeds := []\<rparr>
      in A\<lparr>AsteroidStats := S4\<rparr>)"

subsection \<open>GenerateAsteroid\<close>

text \<open>
  The seed loop of \<^verbatim>\<open>GenerateAsteroid\<close>: a layer with a negative seed draws one from
  the stream \<^verbatim>\<open>GlobalRand\<close>, which advances; any other seed is taken as it is.
\<close>

fun layer_seeds_loop :: "('g, 's) engine \<Rightarrow> FNoiseLayer list \<Rightarrow> 's \<Rightarrow> int list" where
  "layer_seeds_loop E [] GlobalRand = []"
| "layer_seeds_loop E (Layer # rest) GlobalRand =
     (if Seed Layer < 0 then
        (case StreamRandRange E GlobalRand 0 INT32_MAX of
           (seed, GlobalRand') \<Rightarrow> seed # layer_seeds_loop E rest GlobalRand')
      else Seed Layer # layer_seeds_loop E rest GlobalRand)"

text \<open>
  The first stage of \<^verbatim>\<open>GenerateAsteroid\<close> (``pick global seed'', ``prepare per-layer
  seeds''): a negative \<^verbatim>\<open>GlobalSeed\<close> is replaced by \<^verbatim>\<open>FMath::Rand()\<close>, and the seed
  loop runs on a stream seeded with the result.
\<close>

definition resolve_seeds :: "('g, 's) engine \<Rightarrow> AAsteroidActor \<Rightarrow> 'g \<Rightarrow> int list \<times> 'g" where
  "resolve_seeds E A g0 =
     (case (if GlobalSeed A < 0 then Rand E g0 else (GlobalSeed A, g0)) of
        (UsedGlobalSeed, g1) \<Rightarrow>
          (layer_seeds_loop E (NoiseLayers A) (StreamInit E UsedGlobalSeed), g1))"

text \<open>
  The second stage: the base icosphere is built and the noise layers are applied. The
  result is the displaced vertex buffer, the triangle list and the generator's state.
\<close>

definition displaced_icosphere ::
  "('g, 's) engine \<Rightarrow> AAsteroidActor \<Rightarrow> int list \<Rightarrow> 'g \<Rightarrow> (FVector list \<times> int list \<times> 'g) option" where
  "displaced_icosphere E A LayerSeeds g1 =
     (case BuildBaseIcosphere (Subdivisions A) of
        None \<Rightarrow> None
      | Some (Vertices0, Triangles) \<Rightarrow>
          (case ApplyNoiseLayers E (NoiseLayers A) Vertices0 LayerSeeds
                  (MaxDisplacementFraction A) g1 of
             (Vertices1, g2) \<Rightarrow> Some (Vertices1, Triangles, g2)))"

text \<open>
  \<^verbatim>\<open>GenerateAsteroid\<close> takes the actor and the state of the process-wide generator, and
  returns the actor with its statistics stored, the calls made in order, and the
  generator's next state; \<open>None\<close> is a run aborted in \<^verbatim>\<open>BuildBaseIcosphere\<close>.
\<close>

definition GenerateAsteroid ::
  "('g, 's) engine \<Rightarrow> AAsteroidActor \<Rightarrow> 'g \<Rightarrow> (AAsteroidActor \<times> engine_call list \<times> 'g) option" where
  "GenerateAsteroid E A g0 =
     (case resolve_seeds E A g0 of (LayerSeeds, g1) \<Rightarrow>
      case displaced_icosphere E A LayerSeeds g1 of
        None \<Rightarrow> None
      | Some (Vertices1, Triangles, g2) \<Rightarrow>
     (let Vertices2 = NormalizeVertices Vertices1
      in case RandRange_float E (MinRadius A) (MaxRadius A) g2 of
        (ChosenRadius, g3) \<Rightarrow>
     (let Vertices3 = map (\<lambda>V. vec_scale V ChosenRadius) Vertices2;
          A1 = CalculateStats A ChosenRadius;
          A2 = A1\<lparr>AsteroidStats := (AsteroidStats A1)\<lparr>NoiseLayerSeeds := LayerSeeds\<rparr>\<rparr>
      in Some (A2,
           CreateMeshFromData Vertices3 Triangles False @
           [ClearCollisionConvexMeshes, AddCollisionConvexMesh Vertices3, SetCollisionEnabled] @
           (if bEnablePhysics A2
            then [SetSimulatePhysics True, SetMassOverrideInKg (Mass (AsteroidStats A2)) True]
            else []) @
           [Broadcast (AsteroidStats A2),
            UE_LOG (Radius (AsteroidStats A2)) (Volume (AsteroidStats A2))
              (Mass (AsteroidStats A2))],
           g3))))"

text \<open>
  \<^verbatim>\<open>BeginPlay\<close>: after the engine's own \<^verbatim>\<open>BeginPlay\<close>, the asteroid is generated once.
\<close>

definition BeginPlay ::
  "('g, 's) engine \<Rightarrow> AAsteroidActor \<Rightarrow> 'g \<Rightarrow> (AAsteroidActor \<times> engine_call list \<times> 'g) option" where
  "BeginPlay E A g0 = GenerateAsteroid E A g0"

subsection \<open>Observations of a pass and of a run\<close>

text \<open>
  A subdivision pass read as data: the triangles of an index list (the loop stops at
  an incomplete triple), the three edges of each in the order in which the loop asks
  for their midpoints, and the twelve entries that the loop appends for a triangle and
  the three indices it got.
\<close>

fun triangles_of :: "int list \<Rightarrow> (int \<times> int \<times> int) list" where
  "triangles_of (v1 # v2 # v3 # rest) = (v1, v2, v3) # triangles_of rest"
| "triangles_of Triangles = []"

fun edges_of :: "(int \<times> int \<times> int) list \<Rightarrow> (int \<times> int) list" where
  "edges_of [] = []"
| "edges_of ((v1, v2, v3) # ts) = (v1, v2) # (v2, v3) # (v3, v1) # edges_of ts"

fun children_of :: "(int \<times> int \<times> int) list \<Rightarrow> int list \<Rightarrow> int list" where
  "children_of ((v1, v2, v3) # ts) (a # b # c # mids) =
     [v1, a, c, v2, b, a, v3, c, b, a, b, c] @ children_of ts mids"
| "children_of ts mids = []"

text \<open>
  \<^verbatim>\<open>GetMiddlePoint\<close> called for a list of edges, one after the other, on one vertex
  buffer and one cache; the result is the list of the indices returned, with the buffer
  and the cache after the last call.
\<close>

fun request_midpoints ::
  "(int \<times> int) list \<Rightarrow> FVector list \<Rightarrow> Cache \<Rightarrow> (int list \<times> FVector list \<times> Cache) option" where
  "request_midpoints [] Vertices cache = Some ([], Vertices, cache)"
| "request_midpoints ((p1, p2) # edges) Vertices cache =
     (case GetMiddlePoint p1 p2 Vertices cache of
        None \<Rightarrow> None
      | Some (i, Vertices1, cache1) \<Rightarrow>
          (case request_midpoints edges Vertices1 cache1 of
             None \<Rightarrow> None
           | Some (mids, Vertices2, cache2) \<Rightarrow> Some (i # mids, Vertices2, cache2)))"

text \<open>The end points of an edge in ascending order.\<close>

definition ends :: "int \<times> int \<Rightarrow> int \<times> int" where
  "ends e = (min (fst e) (snd e), max (fst e) (snd e))"

definition edge_key :: "int \<times> int \<Rightarrow> int" where
  "edge_key e = MakeKey (fst e) (snd e)"

text \<open>
  What a run of \<^verbatim>\<open>GenerateAsteroid\<close> hands over: the statistics stored in the actor, the
  payloads of the broadcasts, and the vertex and triangle buffers of the mesh section.
\<close>

definition generated_stats ::
  "(AAsteroidActor \<times> engine_call list \<times> 'g) option \<Rightarrow> FAsteroidStats option" where
  "generated_stats r = (case r of None \<Rightarrow> None | Some (A, calls, g) \<Rightarrow> Some (AsteroidStats A))"

fun broadcasts :: "engine_call list \<Rightarrow> FAsteroidStats list" where
  "broadcasts [] = []"
| "broadcasts (Broadcast Stats # calls) = Stats # broadcasts calls"
| "broadcasts (call # calls) = broadcasts calls"

definition uploaded_mesh ::
  "(AAsteroidActor \<times> engine_call list \<times> 'g) option \<Rightarrow> (FVector list \<times> int list) option" where
  "uploaded_mesh r =
     (case r of
        Some (A, CreateMeshSection n Vertices Triangles b # calls, g) \<Rightarrow> Some (Vertices, Triangles)
      | _ \<Rightarrow> None)"

definition uploaded_vertex ::
  "(AAsteroidActor \<times> engine_call list \<times> 'g) option \<Rightarrow> nat \<Rightarrow> FVector option" where
  "uploaded_vertex r i =
     (case uploaded_mesh r of
        None \<Rightarrow> None
      | Some (Vertices, Triangles) \<Rightarrow> if i < length Vertices then Some (Vertices ! i) else None)"

text \<open>
  \<open>radial lo u v\<close>: the vector \<open>v\<close> is \<open>u\<close> scaled by a factor of at least \<open>lo\<close>.
\<close>

definition radial :: "real \<Rightarrow> FVector \<Rightarrow> FVector \<Rightarrow> bool" where
  "radial lo u v = (\<exists>c. v = vec_scale u c \<and> lo \<le> c)"

subsection \<open>Invariants of the subdivision\<close>

text \<open>
  The vertex that \<^verbatim>\<open>GetMiddlePoint\<close> appends for two end points; buffers of unit vectors;
  caches whose entries are midpoints of edges between valid indices; and triangle lists
  whose triples are valid and pairwise at an acute angle.
\<close>

definition midpoint :: "FVector \<Rightarrow> FVector \<Rightarrow> FVector" where
  "midpoint a b = Normalize (vec_scale (vec_add a b) (1 / 2))"

definition unit_vertices :: "FVector list \<Rightarrow> bool" where
  "unit_vertices Vs = (\<forall>v\<in>set Vs. SizeSquared v = 1)"

definition cache_sound :: "FVector list \<Rightarrow> Cache \<Rightarrow> bool" where
  "cache_sound Vs C =
     (\<forall>k i. C k = Some i \<longrightarrow>
        (\<exists>p q. IsValidIndex Vs p \<and> IsValidIndex Vs q \<and> k = MakeKey p q \<and> IsValidIndex Vs i
           \<and> Vs ! nat i = midpoint (Vs ! nat p) (Vs ! nat q)))"

text \<open>
  The state of a pass that started on the buffer \<open>V0\<close> with an empty cache and has
  asked for the edges \<open>asked\<close>: the buffer is \<open>V0\<close> with one vertex appended for every
  key in the cache; the keys are those of the edges asked for; the entry of an edge is
  the index of a new vertex, the midpoint of its end points; and no two keys share an
  index.
\<close>

definition pass_inv :: "FVector list \<Rightarrow> (int \<times> int) list \<Rightarrow> FVector list \<Rightarrow> Cache \<Rightarrow> bool" where
  "pass_inv V0 asked Vs C =
     (take (length V0) Vs = V0 \<and> length V0 \<le> length Vs
      \<and> dom C = edge_key ` set asked
      \<and> card (dom C) = length Vs - length V0
      \<and> (\<forall>e\<in>set asked. IsValidIndex V0 (fst e) \<and> IsValidIndex V0 (snd e)
            \<and> (\<exists>i. C (edge_key e) = Some i \<and> int (length V0) \<le> i \<and> IsValidIndex Vs i
                  \<and> Vs ! nat i = midpoint (V0 ! nat (fst e)) (V0 ! nat (snd e))))
      \<and> (\<forall>k1 k2 i. C k1 = Some i \<and> C k2 = Some i \<longrightarrow> k1 = k2))"

fun acute_triangles :: "FVector list \<Rightarrow> int list \<Rightarrow> bool" where
  "acute_triangles Vs (v1 # v2 # v3 # rest) =
     (IsValidIndex Vs v1 \<and> IsValidIndex Vs v2 \<and> IsValidIndex Vs v3
      \<and> 0 < DotProduct (Vs ! nat v1) (Vs ! nat v2)
      \<and> 0 < DotProduct (Vs ! nat v2) (Vs ! nat v3)
      \<and> 0 < DotProduct (Vs ! nat v3) (Vs ! nat v1)
      \<and> acute_triangles Vs rest)"
| "acute_triangles Vs T = True"

subsection \<open>Concrete inputs\<close>

text \<open>
  A small engine for concrete runs: the process-wide generator and the streams are
  counters, and the noise field is constant.
\<close>

definition demo_engine :: "(nat, int) engine" where
  "demo_engine =
     \<lparr>Rand = (\<lambda>g. (int g, Suc g)),
      FRand = (\<lambda>g. (real (g mod 4) / 4, Suc g)),
      StreamInit = (\<lambda>seed. seed),
      StreamRandRange = (\<lambda>s lo hi. (lo + s mod (hi - lo + 1), s + 1)),
      StreamFRand = (\<lambda>s. (real_of_int (s mod 8) / 8, s + 1)),
      PerlinNoise3D = (\<lambda>p. - 1 / 2)\<rparr>"

definition demo_stats :: FAsteroidStats where
  "demo_stats = \<lparr>Radius = 0, Volume = 0, Mass = 0, NoiseLayerSeeds = []\<rparr>"

definition demo_actor :: AAsteroidActor where
  "demo_actor =
     \<lparr>Subdivisions = 0, MinRadius = 100, MaxRadius = 100, Density = 2000, GlobalSeed = 42,
      NoiseLayers = [\<lparr>Scale = 1 / 10, Intensity = 4, Seed = 7\<rparr>],
      MaxDisplacementFraction = 1 / 2, bEnablePhysics = True, AsteroidStats = demo_stats\<rparr>"

definition demo_actor_mixed :: AAsteroidActor where
  "demo_actor_mixed =
     demo_actor\<lparr>NoiseLayers :=
       [\<lparr>Scale = 1 / 10, Intensity = 1, Seed = 7\<rparr>, \<lparr>Scale = 1 / 2, Intensity = 1, Seed = - 1\<rparr>]\<rparr>"

definition demo_actor_range :: AAsteroidActor where
  "demo_actor_range = demo_actor\<lparr>MinRadius := 250, MaxRadius := 1000\<rparr>"

definition collapse_actor :: AAsteroidActor where
  "collapse_actor =
     demo_actor\<lparr>NoiseLayers :=
       [\<lparr>Scale = 1 / 10, Intensity = 4, Seed = 7\<rparr>, \<lparr>Scale = 1 / 2, Intensity = 4, Seed = 8\<rparr>]\<rparr>"

definition sliver_actor :: AAsteroidActor where
  "sliver_actor = demo_actor\<lparr>MaxDisplacementFraction := 99995 / 100000\<rparr>"

text \<open>The second vertex of the icosahedron, normalized.\<close>

definition unit_vertex1 :: FVector where
  "unit_vertex1 = Normalize (FVector 1 golden_t 0)"

definition demo_triangle_vertices :: "FVector list" where
  "demo_triangle_vertices = [FVector 1 0 0, FVector 0 1 0, FVector 0 0 1]"

section \<open>Properties\<close>

subsection \<open>Index validity, array sizes and the levels that can be built\<close>

lemma IsValidIndex_append: "IsValidIndex Vs t \<Longrightarrow> IsValidIndex (Vs @ ext) t"
  by (simp add: IsValidIndex_def)

lemma list_all_IsValidIndex_mono:
  "list_all (IsValidIndex Vs) T \<Longrightarrow> length Vs \<le> length Vs' \<Longrightarrow> list_all (IsValidIndex Vs') T"
  by (induction T) (auto simp: IsValidIndex_def)

lemma GetMiddlePoint_hit:
  "cache (MakeKey p1 p2) = Some i \<Longrightarrow> GetMiddlePoint p1 p2 Vertices cache = Some (i, Vertices, cache)"
  by (simp add: GetMiddlePoint_def Let_def)

lemma GetMiddlePoint_miss:
  "cache (MakeKey p1 p2) = None \<Longrightarrow> IsValidIndex Vertices p1 \<Longrightarrow> IsValidIndex Vertices p2 \<Longrightarrow>
   int (length Vertices) < INT32_MAX \<Longrightarrow>
   GetMiddlePoint p1 p2 Vertices cache =
     Some (int (length Vertices),
           Vertices @ [Normalize (vec_scale (vec_add (Vertices ! nat p1) (Vertices ! nat p2)) (1 / 2))],
           cache(MakeKey p1 p2 \<mapsto> int (length Vertices)))"
  by (simp add: GetMiddlePoint_def Let_def)

lemma GetMiddlePoint_valid:
  assumes "IsValidIndex Vs p1" "IsValidIndex Vs p2" "\<forall>j\<in>ran C. IsValidIndex Vs j"
    and "int (length Vs) < INT32_MAX"
  shows "\<exists>i Vs' C'. GetMiddlePoint p1 p2 Vs C = Some (i, Vs', C') \<and> IsValidIndex Vs' i
           \<and> length Vs \<le> length Vs' \<and> length Vs' \<le> length Vs + 1
           \<and> (\<forall>j\<in>ran C'. IsValidIndex Vs' j)"
proof (cases "C (MakeKey p1 p2)")
  case None
  have "\<forall>j\<in>ran (C(MakeKey p1 p2 \<mapsto> int (length Vs))). IsValidIndex (Vs @ [v]) j" for v
  proof
    fix j assume "j \<in> ran (C(MakeKey p1 p2 \<mapsto> int (length Vs)))"
    then have "j = int (length Vs) \<or> j \<in> ran C"
      by (auto simp: ran_def split: if_splits)
    with assms(3) show "IsValidIndex (Vs @ [v]) j"
      by (auto simp: IsValidIndex_def)
  qed
  with GetMiddlePoint_miss [of C p1 p2 Vs] None assms(1,2,4) show ?thesis
    by (simp add: IsValidIndex_def)
next
  case (Some i)
  with assms(3) have "IsValidIndex Vs i" by (auto simp: ran_def)
  with GetMiddlePoint_hit [of C p1 p2 i Vs] Some assms(3) show ?thesis
    by simp
qed

lemma subdivide_loop_valid:
  "list_all (IsValidIndex Vs) T \<Longrightarrow> \<forall>j\<in>ran C. IsValidIndex Vs j \<Longrightarrow>
   list_all (IsValidIndex Vs) newT \<Longrightarrow> int (length Vs) + int (length T) \<le> INT32_MAX \<Longrightarrow>
   \<exists>Vs' T'. subdivide_loop T Vs C newT = Some (Vs', T')
      \<and> length T' = length newT + 12 * (length T div 3)
      \<and> list_all (IsValidIndex Vs') T' \<and> length Vs \<le> length Vs'
      \<and> length Vs' \<le> length Vs + length T"
proof (induction T Vs C newT rule: subdivide_loop.induct)
  case (1 v1 v2 v3 rest Vs C newT)
  from "1.prems" have v: "IsValidIndex Vs v1" "IsValidIndex Vs v2" "IsValidIndex Vs v3"
    and rest: "list_all (IsValidIndex Vs) rest" by simp_all
  have b0: "int (length Vs) < INT32_MAX" using "1.prems"(4) by simp
  from GetMiddlePoint_valid [OF v(1) v(2) "1.prems"(2) b0]
  obtain a Vs1 C1 where a: "GetMiddlePoint v1 v2 Vs C = Some (a, Vs1, C1)"
    "IsValidIndex Vs1 a" "length Vs \<le> length Vs1" "length Vs1 \<le> length Vs + 1"
    "\<forall>j\<in>ran C1. IsValidIndex Vs1 j" by blast
  have v1: "IsValidIndex Vs1 v1" "IsValidIndex Vs1 v2" "IsValidIndex Vs1 v3"
    using v a(3) by (auto simp: IsValidIndex_def)
  have b1: "int (length Vs1) < INT32_MAX" using "1.prems"(4) a(4) by simp
  from GetMiddlePoint_valid [OF v1(2) v1(3) a(5) b1]
  obtain b Vs2 C2 where b: "GetMiddlePoint v2 v3 Vs1 C1 = Some (b, Vs2, C2)"
    "IsValidIndex Vs2 b" "length Vs1 \<le> length Vs2" "length Vs2 \<le> length Vs1 + 1"
    "\<forall>j\<in>ran C2. IsValidIndex Vs2 j" by blast
  have v2: "IsValidIndex Vs2 v1" "IsValidIndex Vs2 v2" "IsValidIndex Vs2 v3" "IsValidIndex Vs2 a"
    using v1 a(2) b(3) by (auto simp: IsValidIndex_def)
  have b2: "int (length Vs2) < INT32_MAX" using "1.prems"(4) a(4) b(4) by simp
  from GetMiddlePoint_valid [OF v2(3) v2(1) b(5) b2]
  obtain c Vs3 C3 where c: "GetMiddlePoint v3 v1 Vs2 C2 = Some (c, Vs3, C3)"
    "IsValidIndex Vs3 c" "length Vs2 \<le> length Vs3" "length Vs3 \<le> length Vs2 + 1"
    "\<forall>j\<in>ran C3. IsValidIndex Vs3 j" by blast
  have v3: "IsValidIndex Vs3 v1" "IsValidIndex Vs3 v2" "IsValidIndex Vs3 v3" "IsValidIndex Vs3 a"
      "IsValidIndex Vs3 b"
    using v2 b(2) c(3) by (auto simp: IsValidIndex_def)
  have le: "length Vs \<le> length Vs3" using a(3) b(3) c(3) by simp
  have new: "list_all (IsValidIndex Vs3) (newT @ [v1, a, c, v2, b, a, v3, c, b, a, b, c])"
    using list_all_IsValidIndex_mono [OF "1.prems"(3) le] v3 c(2) by simp
  have b3: "int (length Vs3) + int (length rest) \<le> INT32_MAX"
    using "1.prems"(4) a(4) b(4) c(4) by simp
  from "1.IH" [OF a(1) refl refl b(1) refl refl c(1) refl refl
      list_all_IsValidIndex_mono [OF rest le] c(5) new b3]
  obtain Vs' T' where r: "subdivide_loop rest Vs3 C3 (newT @ [v1, a, c, v2, b, a, v3, c, b, a, b, c]) = Some (Vs', T')"
    "length T' = length (newT @ [v1, a, c, v2, b, a, v3, c, b, a, b, c]) + 12 * (length rest div 3)"
    "list_all (IsValidIndex Vs') T'" "length Vs3 \<le> length Vs'"
    "length Vs' \<le> length Vs3 + length rest" by blast
  have "length Vs' \<le> length Vs + length (v1 # v2 # v3 # rest)"
    using r(5) a(4) b(4) c(4) by simp
  with a(1) b(1) c(1) r le show ?case by simp
qed simp_all

lemma SubdivideIcosphere_valid:
  assumes "list_all (IsValidIndex Vs) T" and "3 dvd length T" and "length Vs \<le> length T"
    and "int (length T) * 4 \<le> INT32_MAX"
  shows "\<exists>Vs' T'. SubdivideIcosphere Vs T = Some (Vs', T') \<and> length T' = 4 * length T
           \<and> list_all (IsValidIndex Vs') T' \<and> length Vs \<le> length Vs'
           \<and> length Vs' \<le> length Vs + length T \<and> length Vs' \<le> length T'"
proof -
  have b: "int (length Vs) + int (length T) \<le> INT32_MAX" using assms(3,4) by simp
  from subdivide_loop_valid [of Vs T Map.empty "[]"] assms(1) b
  obtain Vs' T' where r: "subdivide_loop T Vs Map.empty [] = Some (Vs', T')"
    "length T' = length ([]::int list) + 12 * (length T div 3)"
    "list_all (IsValidIndex Vs') T'" "length Vs \<le> length Vs'" "length Vs' \<le> length Vs + length T"
    by auto
  from assms(2) have "12 * (length T div 3) = 4 * length T" by auto
  with r assms(3,4) show ?thesis by (simp add: SubdivideIcosphere_def)
qed

lemma subdivide_times_valid:
  "list_all (IsValidIndex Vs) T \<Longrightarrow> 3 dvd length T \<Longrightarrow> length Vs \<le> length T \<Longrightarrow>
   int (length T) * 4 ^ n \<le> INT32_MAX \<Longrightarrow>
   \<exists>Vs' T'. subdivide_times n Vs T = Some (Vs', T') \<and> length T' = 4 ^ n * length T
      \<and> list_all (IsValidIndex Vs') T' \<and> length Vs \<le> length Vs' \<and> length Vs' \<le> length T'"
proof (induction n arbitrary: Vs T)
  case 0
  then show ?case by simp
next
  case (Suc n)
  have "int (length T) * 4 \<le> int (length T) * 4 ^ Suc n"
    by (intro mult_left_mono) simp_all
  with Suc.prems(4) have b: "int (length T) * 4 \<le> INT32_MAX" by linarith
  from SubdivideIcosphere_valid [OF Suc.prems(1-3) b]
  obtain Vs1 T1 where s: "SubdivideIcosphere Vs T = Some (Vs1, T1)" "length T1 = 4 * length T"
    "list_all (IsValidIndex Vs1) T1" "length Vs \<le> length Vs1" "length Vs1 \<le> length T1" by blast
  from s(2) Suc.prems(2) have dvd: "3 dvd length T1" by simp
  have b1: "int (length T1) * 4 ^ n \<le> INT32_MAX" using Suc.prems(4) s(2) by (simp add: mult.assoc)
  from Suc.IH [OF s(3) dvd s(5) b1]
  obtain Vs' T' where r: "subdivide_times n Vs1 T1 = Some (Vs', T')" "length T' = 4 ^ n * length T1"
    "list_all (IsValidIndex Vs') T'" "length Vs1 \<le> length Vs'" "length Vs' \<le> length T'" by blast
  with s show ?case by simp
qed

lemma length_faceIndices: "length faceIndices = 60"
  by (simp add: faceIndices_def)

lemma length_icosahedron_vertices: "length icosahedron_vertices = 12"
  by (simp add: icosahedron_vertices_def Let_def)

lemma faceIndices_valid: "list_all (IsValidIndex (NormalizeVertices icosahedron_vertices)) faceIndices"
  by (simp add: faceIndices_def IsValidIndex_def NormalizeVertices_def length_icosahedron_vertices)

lemma level_bound: "L \<le> 12 \<Longrightarrow> int (length faceIndices) * 4 ^ nat L \<le> INT32_MAX"
proof -
  assume "L \<le> 12"
  then have "nat L \<le> 12" by simp
  then have "(4::int) ^ nat L \<le> 4 ^ 12" by (intro power_increasing) simp_all
  then show ?thesis by (simp add: length_faceIndices INT32_MAX_def)
qed

lemma BuildBaseIcosphere_Some:
  assumes "L \<le> 12"
  shows "\<exists>Vertices Triangles. BuildBaseIcosphere L = Some (Vertices, Triangles)
      \<and> length Triangles = 60 * 4 ^ nat L
      \<and> list_all (IsValidIndex Vertices) Triangles \<and> 12 \<le> length Vertices
      \<and> length Vertices \<le> length Triangles"
proof -
  have le: "length (NormalizeVertices icosahedron_vertices) \<le> length faceIndices"
    by (simp add: NormalizeVertices_def length_icosahedron_vertices length_faceIndices)
  from subdivide_times_valid [OF faceIndices_valid _ le level_bound [OF assms]]
  obtain Vs' T' where r: "subdivide_times (nat L) (NormalizeVertices icosahedron_vertices) faceIndices = Some (Vs', T')"
    "length T' = 4 ^ nat L * length faceIndices"
    "list_all (IsValidIndex Vs') T'" "length (NormalizeVertices icosahedron_vertices) \<le> length Vs'"
    "length Vs' \<le> length T'"
    by (auto simp: length_faceIndices)
  have "list_all (IsValidIndex (NormalizeVertices Vs')) T'"
    using list_all_IsValidIndex_mono [OF r(3), of "NormalizeVertices Vs'"]
    by (simp add: NormalizeVertices_def)
  with r show ?thesis
    by (simp add: BuildBaseIcosphere_def NormalizeVertices_def length_faceIndices length_icosahedron_vertices)
qed

lemma BuildBaseIcosphere_level0:
  "L \<le> 0 \<Longrightarrow> BuildBaseIcosphere L
     = Some (NormalizeVertices (NormalizeVertices icosahedron_vertices), faceIndices)"
  by (simp add: BuildBaseIcosphere_def)

text \<open>What a pass returns has twelve entries for every complete triple.\<close>

lemma subdivide_loop_length:
  "subdivide_loop T Vs C newT = Some (Vs', T') \<Longrightarrow> length T' = length newT + 12 * (length T div 3)"
proof (induction T Vs C newT rule: subdivide_loop.induct)
  case (1 v1 v2 v3 rest Vs C newT)
  from "1.prems" obtain a Vs1 C1 where a: "GetMiddlePoint v1 v2 Vs C = Some (a, Vs1, C1)"
    by (auto split: option.splits)
  from "1.prems" a obtain b Vs2 C2 where b: "GetMiddlePoint v2 v3 Vs1 C1 = Some (b, Vs2, C2)"
    by (auto split: option.splits)
  from "1.prems" a b obtain c Vs3 C3 where c: "GetMiddlePoint v3 v1 Vs2 C2 = Some (c, Vs3, C3)"
    by (auto split: option.splits)
  have r: "subdivide_loop rest Vs3 C3 (newT @ [v1, a, c, v2, b, a, v3, c, b, a, b, c]) = Some (Vs', T')"
    using "1.prems" a b c by simp
  from "1.IH" [OF a refl refl b refl refl c refl refl r] show ?case by simp
qed auto

lemma SubdivideIcosphere_length:
  "SubdivideIcosphere Vs T = Some (Vs', T') \<Longrightarrow> 3 dvd length T \<Longrightarrow> length T' = 4 * length T"
  using subdivide_loop_length [of T Vs Map.empty "[]" Vs' T']
  by (auto simp: SubdivideIcosphere_def split: if_splits)

text \<open>
  A pass whose \<^verbatim>\<open>Reserve\<close> size leaves \<^verbatim>\<open>int32\<close> ends the build, however many passes
  come before it.
\<close>

lemma subdivide_times_overflow:
  "3 dvd length T \<Longrightarrow> INT32_MAX < int (length T) * 4 ^ Suc n \<Longrightarrow>
   subdivide_times (Suc n) Vs T = None"
proof (induction n arbitrary: Vs T)
  case 0
  then show ?case by (simp add: SubdivideIcosphere_def)
next
  case (Suc n)
  show ?case
  proof (cases "SubdivideIcosphere Vs T")
    case None
    then show ?thesis by simp
  next
    case (Some r)
    obtain Vs1 T1 where r: "r = (Vs1, T1)" by force
    from SubdivideIcosphere_length [OF Some [unfolded r] Suc.prems(1)]
    have l: "length T1 = 4 * length T" .
    then have dvd: "3 dvd length T1" using Suc.prems(1) by simp
    have "INT32_MAX < int (length T1) * 4 ^ Suc n"
      using Suc.prems(2) l by (simp add: mult.assoc)
    from Suc.IH [OF dvd this, of Vs1] Some r show ?thesis by simp
  qed
qed

lemma BuildBaseIcosphere_overflow:
  assumes "13 \<le> L"
  shows "BuildBaseIcosphere L = None"
proof -
  from assms obtain n where n: "nat L = Suc n" "12 \<le> n"
    by (cases "nat L") auto
  have "(4::int) ^ 13 \<le> 4 ^ Suc n" using n(2) by (intro power_increasing) simp_all
  then have "INT32_MAX < int (length faceIndices) * 4 ^ Suc n"
    by (simp add: length_faceIndices INT32_MAX_def)
  from subdivide_times_overflow [OF _ this, of "NormalizeVertices icosahedron_vertices"]
  show ?thesis by (simp add: BuildBaseIcosphere_def n(1) length_faceIndices)
qed

lemma BuildBaseIcosphere_Some_level:
  assumes "BuildBaseIcosphere L = Some r"
  shows "L \<le> 12"
proof (rule ccontr)
  assume "\<not> L \<le> 12"
  then have "13 \<le> L" by simp
  from BuildBaseIcosphere_overflow [OF this] assms show False by simp
qed


subsection \<open>The shared midpoint\<close>

lemma MakeKey_commute: "MakeKey p1 p2 = MakeKey p2 p1"
  by (simp add: MakeKey_def Let_def min.commute max.commute)

lemma MakeKey_canonical: "MakeKey p1 p2 = MakeKey (min p1 p2) (max p1 p2)"
  by (simp add: MakeKey_def Let_def)

lemma MakeKey_inj:
  assumes "0 \<le> a" "a < 2 ^ 32" "0 \<le> b" "b < 2 ^ 32" "0 \<le> c" "c < 2 ^ 32" "0 \<le> d" "d < 2 ^ 32"
    and "MakeKey a b = MakeKey c d"
  shows "min a b = min c d \<and> max a b = max c d"
proof -
  have r: "0 \<le> max a b" "max a b < 2 ^ 32" "0 \<le> max c d" "max c d < 2 ^ 32"
    using assms by auto
  from assms(9) have e: "min a b * 2 ^ 32 + max a b = min c d * 2 ^ 32 + max c d"
    using r by (simp add: MakeKey_def Let_def)
  have "(min a b * 2 ^ 32 + max a b) div 2 ^ 32 = (min c d * 2 ^ 32 + max c d) div 2 ^ 32"
    using e by simp
  then have "min a b = min c d"
    using r by simp
  with e show ?thesis by simp
qed

lemma GetMiddlePoint_preserves:
  assumes "GetMiddlePoint q1 q2 Vertices cache = Some (j, Vertices', cache')"
  shows "(\<exists>ext. Vertices' = Vertices @ ext) \<and> (\<forall>k i. cache k = Some i \<longrightarrow> cache' k = Some i)"
  using assms
  by (auto simp: GetMiddlePoint_def Let_def split: option.splits if_splits)

lemma vec_add_commute: "vec_add a b = vec_add b a"
  by (simp add: vec_add_def add.commute)

lemma midpoint_commute: "midpoint a b = midpoint b a"
  by (simp add: midpoint_def vec_add_commute)

lemma nth_append_valid: "IsValidIndex Vs p \<Longrightarrow> (Vs @ ext) ! nat p = Vs ! nat p"
  by (auto simp: IsValidIndex_def nth_append)

text \<open>
  For indices of a buffer of at most \<^verbatim>\<open>INT32_MAX\<close> entries the key is the pair of the
  smaller and the larger index, packed, and two edges have one key exactly when they have
  the same end points.
\<close>

lemma edge_key_ends:
  assumes "IsValidIndex V0 (fst e)" "IsValidIndex V0 (snd e)" "int (length V0) \<le> INT32_MAX"
  shows "edge_key e = fst (ends e) * 2 ^ 32 + snd (ends e)"
proof -
  have "0 \<le> max (fst e) (snd e)" "max (fst e) (snd e) < 2 ^ 32"
    using assms by (auto simp: IsValidIndex_def INT32_MAX_def)
  then show ?thesis by (simp add: edge_key_def ends_def MakeKey_def Let_def)
qed

lemma edge_key_eq_iff:
  assumes "IsValidIndex V0 (fst e)" "IsValidIndex V0 (snd e)"
    and "IsValidIndex V0 (fst e')" "IsValidIndex V0 (snd e')" and "int (length V0) \<le> INT32_MAX"
  shows "edge_key e = edge_key e' \<longleftrightarrow> ends e = ends e'"
proof
  assume k: "edge_key e = edge_key e'"
  have r: "0 \<le> fst e" "fst e < 2 ^ 32" "0 \<le> snd e" "snd e < 2 ^ 32"
      "0 \<le> fst e'" "fst e' < 2 ^ 32" "0 \<le> snd e'" "snd e' < 2 ^ 32"
    using assms by (auto simp: IsValidIndex_def INT32_MAX_def)
  from MakeKey_inj [OF r] k show "ends e = ends e'"
    by (simp add: edge_key_def ends_def)
next
  assume "ends e = ends e'"
  then show "edge_key e = edge_key e'"
    using MakeKey_canonical [of "fst e" "snd e"] MakeKey_canonical [of "fst e'" "snd e'"]
    by (simp add: edge_key_def ends_def)
qed

lemma ends_midpoint:
  assumes "ends e = ends e'"
  shows "midpoint (V0 ! nat (fst e)) (V0 ! nat (snd e)) = midpoint (V0 ! nat (fst e')) (V0 ! nat (snd e'))"
proof -
  from assms have "(fst e = fst e' \<and> snd e = snd e') \<or> (fst e = snd e' \<and> snd e = fst e')"
    by (auto simp: ends_def min_def max_def split: if_splits)
  then show ?thesis using midpoint_commute by auto
qed

lemma card_edge_keys:
  assumes "\<forall>e\<in>S. IsValidIndex V0 (fst e) \<and> IsValidIndex V0 (snd e)" and "int (length V0) \<le> INT32_MAX"
  shows "card (edge_key ` S) = card (ends ` S)"
proof -
  have i: "inj_on (\<lambda>p. fst p * 2 ^ 32 + snd p) (ends ` S)"
  proof (rule inj_onI)
    fix x y assume x: "x \<in> ends ` S" and y: "y \<in> ends ` S"
      and eq: "fst x * 2 ^ 32 + snd x = fst y * 2 ^ 32 + snd y"
    from x obtain e where e: "e \<in> S" "x = ends e" by blast
    from y obtain e' where e': "e' \<in> S" "y = ends e'" by blast
    have "edge_key e = edge_key e'"
      using edge_key_ends [of V0 e] edge_key_ends [of V0 e'] assms e e' eq by simp
    with edge_key_eq_iff [of V0 e e'] assms e e' show "x = y" by simp
  qed
  have "edge_key ` S = (\<lambda>p. fst p * 2 ^ 32 + snd p) ` (ends ` S)"
  proof -
    have "edge_key e = (\<lambda>p. fst p * 2 ^ 32 + snd p) (ends e)" if "e \<in> S" for e
      using edge_key_ends [of V0 e] assms that by simp
    then show ?thesis unfolding image_image by (intro image_cong) simp_all
  qed
  with card_image [OF i] show ?thesis by simp
qed

text \<open>One request keeps the invariant of the pass, whatever was asked before.\<close>

lemma pass_inv_empty: "pass_inv V0 [] V0 Map.empty"
  by (simp add: pass_inv_def)

lemma GetMiddlePoint_pass_inv:
  assumes inv: "pass_inv V0 asked Vs C"
    and p1: "IsValidIndex V0 p1" and p2: "IsValidIndex V0 p2"
    and bound: "int (length Vs) < INT32_MAX"
  shows "\<exists>i Vs' C'. GetMiddlePoint p1 p2 Vs C = Some (i, Vs', C') \<and> C' (MakeKey p1 p2) = Some i
     \<and> (\<forall>k j. C k = Some j \<longrightarrow> C' k = Some j)
     \<and> pass_inv V0 (asked @ [(p1, p2)]) Vs' C' \<and> length Vs' \<le> length Vs + 1"
proof -
  from inv have tk: "take (length V0) Vs = V0" and le: "length V0 \<le> length Vs"
    and dm: "dom C = edge_key ` set asked" and cd: "card (dom C) = length Vs - length V0"
    and old: "\<And>e. e \<in> set asked \<Longrightarrow> IsValidIndex V0 (fst e) \<and> IsValidIndex V0 (snd e)
            \<and> (\<exists>i. C (edge_key e) = Some i \<and> int (length V0) \<le> i \<and> IsValidIndex Vs i
                  \<and> Vs ! nat i = midpoint (V0 ! nat (fst e)) (V0 ! nat (snd e)))"
    and inj: "\<And>k1 k2 i. C k1 = Some i \<Longrightarrow> C k2 = Some i \<Longrightarrow> k1 = k2"
    unfolding pass_inv_def by blast+
  have b0: "int (length V0) \<le> INT32_MAX" using le bound by simp
  have key: "edge_key (p1, p2) = MakeKey p1 p2" by (simp add: edge_key_def)
  show ?thesis
  proof (cases "C (MakeKey p1 p2)")
    case (Some i)
    then have "MakeKey p1 p2 \<in> edge_key ` set asked" using dm by auto
    then obtain e where e: "e \<in> set asked" "edge_key e = MakeKey p1 p2" by auto
    from old [OF e(1)] e(2) Some have ev: "IsValidIndex V0 (fst e)" "IsValidIndex V0 (snd e)"
      and i: "int (length V0) \<le> i" "IsValidIndex Vs i"
        "Vs ! nat i = midpoint (V0 ! nat (fst e)) (V0 ! nat (snd e))" by auto
    have "ends e = ends (p1, p2)"
      using edge_key_eq_iff [of V0 e "(p1, p2)"] ev p1 p2 b0 e(2) key by simp
    from ends_midpoint [OF this, of V0]
    have m: "Vs ! nat i = midpoint (V0 ! nat p1) (V0 ! nat p2)" using i(3) by simp
    have "MakeKey p1 p2 \<in> edge_key ` set asked" using e by force
    then have d: "dom C = edge_key ` set (asked @ [(p1, p2)])"
      using dm by (auto simp: key)
    have "pass_inv V0 (asked @ [(p1, p2)]) Vs C"
      unfolding pass_inv_def
    proof (intro conjI ballI allI impI)
      fix e' assume "e' \<in> set (asked @ [(p1, p2)])"
      then consider (o) "e' \<in> set asked" | (n) "e' = (p1, p2)" by auto
      then have "IsValidIndex V0 (fst e') \<and> IsValidIndex V0 (snd e')
          \<and> (\<exists>i. C (edge_key e') = Some i \<and> int (length V0) \<le> i \<and> IsValidIndex Vs i
            \<and> Vs ! nat i = midpoint (V0 ! nat (fst e')) (V0 ! nat (snd e')))"
      proof cases
        case o
        from old [OF o] show ?thesis .
      next
        case n
        have "C (edge_key e') = Some i" using Some n by (simp add: edge_key_def)
        with n p1 p2 i(1,2) m show ?thesis by simp
      qed
      then show "IsValidIndex V0 (fst e')" "IsValidIndex V0 (snd e')"
        "\<exists>i. C (edge_key e') = Some i \<and> int (length V0) \<le> i \<and> IsValidIndex Vs i
            \<and> Vs ! nat i = midpoint (V0 ! nat (fst e')) (V0 ! nat (snd e'))"
        by blast+
    next
      fix k1 k2 j assume "C k1 = Some j \<and> C k2 = Some j"
      then show "k1 = k2" using inj by blast
    qed (use tk le d cd in simp_all)
    with GetMiddlePoint_hit [of C p1 p2 i Vs] Some show ?thesis by simp
  next
    case None
    let ?m = "midpoint (V0 ! nat p1) (V0 ! nat p2)"
    let ?n = "int (length Vs)"
    let ?C = "C(MakeKey p1 p2 \<mapsto> ?n)"
    have v: "IsValidIndex Vs p1" "IsValidIndex Vs p2"
      using p1 p2 le by (auto simp: IsValidIndex_def)
    have rd: "Vs ! nat p = V0 ! nat p" if "IsValidIndex V0 p" for p
    proof -
      from that have "nat p < length V0" by (auto simp: IsValidIndex_def)
      then have "take (length V0) Vs ! nat p = Vs ! nat p" by simp
      with tk show ?thesis by simp
    qed
    have g: "GetMiddlePoint p1 p2 Vs C = Some (?n, Vs @ [?m], ?C)"
      using GetMiddlePoint_miss [of C p1 p2 Vs] None v bound rd [OF p1] rd [OF p2] by (simp add: midpoint_def)
    have fin: "finite (dom C)" using dm by simp
    have nin: "MakeKey p1 p2 \<notin> dom C" using None by auto
    have vals: "j < ?n" if "C k = Some j" for k j
    proof -
      from that have "k \<in> edge_key ` set asked" using dm by auto
      then obtain e where "e \<in> set asked" "edge_key e = k" by auto
      from old [OF this(1)] this(2) that have "IsValidIndex Vs j" by auto
      then show ?thesis by (simp add: IsValidIndex_def)
    qed
    have "pass_inv V0 (asked @ [(p1, p2)]) (Vs @ [?m]) ?C"
      unfolding pass_inv_def
    proof (intro conjI ballI allI impI)
      show "take (length V0) (Vs @ [?m]) = V0" using tk le by simp
      show "length V0 \<le> length (Vs @ [?m])" using le by simp
      show "dom ?C = edge_key ` set (asked @ [(p1, p2)])" using dm by (auto simp: key)
      show "card (dom ?C) = length (Vs @ [?m]) - length V0"
        using fin nin cd le by simp
    next
      fix e' assume "e' \<in> set (asked @ [(p1, p2)])"
      then consider (o) "e' \<in> set asked" | (n) "e' = (p1, p2)" by auto
      then have "IsValidIndex V0 (fst e') \<and> IsValidIndex V0 (snd e')
          \<and> (\<exists>i. ?C (edge_key e') = Some i \<and> int (length V0) \<le> i \<and> IsValidIndex (Vs @ [?m]) i
            \<and> (Vs @ [?m]) ! nat i = midpoint (V0 ! nat (fst e')) (V0 ! nat (snd e')))"
      proof cases
        case o
        from old [OF o] obtain i where i: "IsValidIndex V0 (fst e')" "IsValidIndex V0 (snd e')"
          "C (edge_key e') = Some i" "int (length V0) \<le> i" "IsValidIndex Vs i"
          "Vs ! nat i = midpoint (V0 ! nat (fst e')) (V0 ! nat (snd e'))" by blast
        have "edge_key e' \<noteq> MakeKey p1 p2" using i(3) None by auto
        then have "?C (edge_key e') = Some i" using i(3) by simp
        with i nth_append_valid [OF i(5), of "[?m]"] IsValidIndex_append [OF i(5), of "[?m]"]
        show ?thesis by auto
      next
        case n
        then show ?thesis using p1 p2 le by (simp add: edge_key_def IsValidIndex_def)
      qed
      then show "IsValidIndex V0 (fst e')" "IsValidIndex V0 (snd e')"
        "\<exists>i. ?C (edge_key e') = Some i \<and> int (length V0) \<le> i \<and> IsValidIndex (Vs @ [?m]) i
            \<and> (Vs @ [?m]) ! nat i = midpoint (V0 ! nat (fst e')) (V0 ! nat (snd e'))"
        by blast+
    next
      fix k1 k2 j assume a: "?C k1 = Some j \<and> ?C k2 = Some j"
      show "k1 = k2"
      proof (cases "k1 = MakeKey p1 p2")
        case True
        with a have j: "j = ?n" by simp
        show ?thesis
        proof (rule ccontr)
          assume "k1 \<noteq> k2"
          with True a have "C k2 = Some j" by (simp split: if_splits)
          with vals j show False by blast
        qed
      next
        case False
        with a have c1: "C k1 = Some j" by simp
        show ?thesis
        proof (cases "k2 = MakeKey p1 p2")
          case True
          with a have "j = ?n" by simp
          with vals c1 show ?thesis by blast
        next
          case False
          with a have "C k2 = Some j" by simp
          with c1 inj show ?thesis by blast
        qed
      qed
    qed
    moreover have "\<forall>k j. C k = Some j \<longrightarrow> ?C k = Some j" using None by auto
    ultimately show ?thesis using g by simp
  qed
qed

text \<open>A sequence of requests on one cache.\<close>

lemma request_midpoints_pass_inv:
  "pass_inv V0 asked Vs C \<Longrightarrow>
   list_all (\<lambda>e. IsValidIndex V0 (fst e) \<and> IsValidIndex V0 (snd e)) edges \<Longrightarrow>
   int (length Vs) + int (length edges) \<le> INT32_MAX \<Longrightarrow>
   \<exists>mids Vs' C'. request_midpoints edges Vs C = Some (mids, Vs', C') \<and> length mids = length edges
     \<and> pass_inv V0 (asked @ edges) Vs' C'
     \<and> (\<forall>j<length edges. C' (edge_key (edges ! j)) = Some (mids ! j))
     \<and> (\<forall>k j. C k = Some j \<longrightarrow> C' k = Some j)
     \<and> length Vs' \<le> length Vs + length edges"
proof (induction edges arbitrary: asked Vs C)
  case Nil
  then show ?case by simp
next
  case (Cons e edges)
  obtain p1 p2 where e: "e = (p1, p2)" by force
  from Cons.prems(2) e have v: "IsValidIndex V0 p1" "IsValidIndex V0 p2"
    and rest: "list_all (\<lambda>e. IsValidIndex V0 (fst e) \<and> IsValidIndex V0 (snd e)) edges" by simp_all
  have b: "int (length Vs) < INT32_MAX" using Cons.prems(3) by simp
  from GetMiddlePoint_pass_inv [OF Cons.prems(1) v b]
  obtain i Vs1 C1 where g: "GetMiddlePoint p1 p2 Vs C = Some (i, Vs1, C1)"
    "C1 (MakeKey p1 p2) = Some i" "\<forall>k j. C k = Some j \<longrightarrow> C1 k = Some j"
    "pass_inv V0 (asked @ [(p1, p2)]) Vs1 C1" "length Vs1 \<le> length Vs + 1" by blast
  have b1: "int (length Vs1) + int (length edges) \<le> INT32_MAX"
    using Cons.prems(3) g(5) by simp
  from Cons.IH [OF g(4) rest b1]
  obtain mids Vs' C' where r: "request_midpoints edges Vs1 C1 = Some (mids, Vs', C')"
    "length mids = length edges" "pass_inv V0 ((asked @ [(p1, p2)]) @ edges) Vs' C'"
    "\<forall>j<length edges. C' (edge_key (edges ! j)) = Some (mids ! j)"
    "\<forall>k j. C1 k = Some j \<longrightarrow> C' k = Some j" "length Vs' \<le> length Vs1 + length edges" by blast
  have first: "C' (edge_key e) = Some i" using g(2) r(5) e by (simp add: edge_key_def)
  have all: "\<forall>j<length (e # edges). C' (edge_key ((e # edges) ! j)) = Some ((i # mids) ! j)"
  proof (intro allI impI)
    fix j assume "j < length (e # edges)"
    then show "C' (edge_key ((e # edges) ! j)) = Some ((i # mids) ! j)"
      using first r(4) by (cases j) simp_all
  qed
  have "request_midpoints (e # edges) Vs C = Some (i # mids, Vs', C')"
    using g(1) r(1) e by simp
  moreover have "pass_inv V0 (asked @ e # edges) Vs' C'" using r(3) e by simp
  moreover have "length Vs' \<le> length Vs + length (e # edges)" using r(6) g(5) by simp
  moreover have "\<forall>k j. C k = Some j \<longrightarrow> C' k = Some j" using g(3) r(5) by blast
  ultimately show ?case using r(2) all by simp
qed

text \<open>The loop of a pass is such a sequence: three requests for every triangle.\<close>

lemma subdivide_loop_requests:
  "subdivide_loop T Vs C newT =
     (case request_midpoints (edges_of (triangles_of T)) Vs C of
        None \<Rightarrow> None
      | Some (mids, Vs', C') \<Rightarrow> Some (Vs', newT @ children_of (triangles_of T) mids))"
proof (induction T Vs C newT rule: subdivide_loop.induct)
  case (1 v1 v2 v3 rest Vs C newT)
  show ?case
  proof (cases "GetMiddlePoint v1 v2 Vs C")
    case None
    then show ?thesis by simp
  next
    case (Some r1)
    obtain a Vs1 C1 where r1: "r1 = (a, Vs1, C1)" by (cases r1) auto
    show ?thesis
    proof (cases "GetMiddlePoint v2 v3 Vs1 C1")
      case None
      then show ?thesis using Some r1 by simp
    next
      case (Some r2)
      obtain b Vs2 C2 where r2: "r2 = (b, Vs2, C2)" by (cases r2) auto
      show ?thesis
      proof (cases "GetMiddlePoint v3 v1 Vs2 C2")
        case None
        then show ?thesis using \<open>GetMiddlePoint v1 v2 Vs C = Some r1\<close> r1 Some r2 by simp
      next
        case (Some r3)
        obtain c Vs3 C3 where r3: "r3 = (c, Vs3, C3)" by (cases r3) auto
        note g1 = \<open>GetMiddlePoint v1 v2 Vs C = Some r1\<close> [unfolded r1]
        note g2 = \<open>GetMiddlePoint v2 v3 Vs1 C1 = Some r2\<close> [unfolded r2]
        note g3 = Some [unfolded r3]
        from "1.IH" [OF g1 refl refl g2 refl refl g3 refl refl]
        show ?thesis using g1 g2 g3 by (simp split: option.splits)
      qed
    qed
  qed
qed simp_all

lemma SubdivideIcosphere_requests:
  "SubdivideIcosphere Vertices Triangles =
     (if INT32_MAX < int (length Triangles) * 4 then None
      else case request_midpoints (edges_of (triangles_of Triangles)) Vertices Map.empty of
             None \<Rightarrow> None
           | Some (mids, Vertices', cache) \<Rightarrow>
               Some (Vertices', children_of (triangles_of Triangles) mids))"
  by (auto simp: SubdivideIcosphere_def subdivide_loop_requests split: option.splits)

text \<open>
  Claim C3. A pass starts with an empty cache and calls \<^verbatim>\<open>GetMiddlePoint\<close> for one edge
  after the other; the edges are between vertices the buffer holds at the start. Every
  call returns. The old vertices stay where they are, and the buffer grows by one entry
  for every edge asked for, however often and in whichever order of its end points it
  is asked for. The cache ends with one entry per such edge, under the packed pair of
  the smaller and the larger index, and that entry is what every call for the edge
  returned: the index of a new vertex, which is the normalized mean of the two end
  points. Two calls return the same index exactly when they are for the same edge, in
  either order. The loop of \<^verbatim>\<open>SubdivideIcosphere\<close> is such a sequence, three calls for
  every triangle.
\<close>

theorem GetMiddlePoint_shared_midpoint:
  assumes "list_all (\<lambda>e. IsValidIndex V0 (fst e) \<and> IsValidIndex V0 (snd e)) edges"
    and "int (length V0) + int (length edges) \<le> INT32_MAX"
  shows "\<exists>mids Vs C.
       request_midpoints edges V0 Map.empty = Some (mids, Vs, C)
     \<and> length mids = length edges
     \<and> take (length V0) Vs = V0
     \<and> length Vs = length V0 + card (ends ` set edges)
     \<and> dom C = (\<lambda>e. min (fst e) (snd e) * 2 ^ 32 + max (fst e) (snd e)) ` set edges
     \<and> (\<forall>j<length edges.
            C (min (fst (edges ! j)) (snd (edges ! j)) * 2 ^ 32
                 + max (fst (edges ! j)) (snd (edges ! j))) = Some (mids ! j)
          \<and> int (length V0) \<le> mids ! j \<and> IsValidIndex Vs (mids ! j)
          \<and> Vs ! nat (mids ! j) =
              Normalize (vec_scale (vec_add (V0 ! nat (fst (edges ! j)))
                                            (V0 ! nat (snd (edges ! j)))) (1 / 2)))
     \<and> (\<forall>j<length edges. \<forall>k<length edges.
            (mids ! j = mids ! k) =
            (fst (edges ! j) = fst (edges ! k) \<and> snd (edges ! j) = snd (edges ! k)
             \<or> fst (edges ! j) = snd (edges ! k) \<and> snd (edges ! j) = fst (edges ! k)))
     \<and> (\<forall>Vertices Triangles. SubdivideIcosphere Vertices Triangles =
           (if INT32_MAX < int (length Triangles) * 4 then None
            else case request_midpoints (edges_of (triangles_of Triangles)) Vertices Map.empty of
                   None \<Rightarrow> None
                 | Some (mids, Vertices', cache) \<Rightarrow>
                     Some (Vertices', children_of (triangles_of Triangles) mids)))"
proof -
  have b: "int (length V0) \<le> INT32_MAX" using assms(2) by simp
  from request_midpoints_pass_inv [OF pass_inv_empty assms]
  obtain mids Vs C where r: "request_midpoints edges V0 Map.empty = Some (mids, Vs, C)"
    "length mids = length edges" "pass_inv V0 edges Vs C"
    "\<forall>j<length edges. C (edge_key (edges ! j)) = Some (mids ! j)" by auto
  from r(3) have tk: "take (length V0) Vs = V0" and le: "length V0 \<le> length Vs"
    and dm: "dom C = edge_key ` set edges" and cd: "card (dom C) = length Vs - length V0"
    and old: "\<And>e. e \<in> set edges \<Longrightarrow> IsValidIndex V0 (fst e) \<and> IsValidIndex V0 (snd e)
            \<and> (\<exists>i. C (edge_key e) = Some i \<and> int (length V0) \<le> i \<and> IsValidIndex Vs i
                  \<and> Vs ! nat i = midpoint (V0 ! nat (fst e)) (V0 ! nat (snd e)))"
    and inj: "\<And>k1 k2 i. C k1 = Some i \<Longrightarrow> C k2 = Some i \<Longrightarrow> k1 = k2"
    unfolding pass_inv_def by blast+
  have val: "\<forall>e\<in>set edges. IsValidIndex V0 (fst e) \<and> IsValidIndex V0 (snd e)"
    using old by blast
  have key: "edge_key e = min (fst e) (snd e) * 2 ^ 32 + max (fst e) (snd e)"
    if "e \<in> set edges" for e
    using edge_key_ends [of V0 e] val that b by (simp add: ends_def)
  have len: "length Vs = length V0 + card (ends ` set edges)"
    using card_edge_keys [OF val b] dm cd le by simp
  have dom: "dom C = (\<lambda>e. min (fst e) (snd e) * 2 ^ 32 + max (fst e) (snd e)) ` set edges"
    unfolding dm by (intro image_cong) (simp_all add: key)
  have each: "C (min (fst (edges ! j)) (snd (edges ! j)) * 2 ^ 32
                 + max (fst (edges ! j)) (snd (edges ! j))) = Some (mids ! j)
          \<and> int (length V0) \<le> mids ! j \<and> IsValidIndex Vs (mids ! j)
          \<and> Vs ! nat (mids ! j) =
              Normalize (vec_scale (vec_add (V0 ! nat (fst (edges ! j)))
                                            (V0 ! nat (snd (edges ! j)))) (1 / 2))"
    if "j < length edges" for j
  proof -
    from that have m: "edges ! j \<in> set edges" by simp
    from r(4) that have c: "C (edge_key (edges ! j)) = Some (mids ! j)" by simp
    from old [OF m] c have "int (length V0) \<le> mids ! j" "IsValidIndex Vs (mids ! j)"
      "Vs ! nat (mids ! j) = midpoint (V0 ! nat (fst (edges ! j))) (V0 ! nat (snd (edges ! j)))"
      by auto
    with c key [OF m] show ?thesis by (simp add: midpoint_def)
  qed
  have same: "(mids ! j = mids ! k) =
            (fst (edges ! j) = fst (edges ! k) \<and> snd (edges ! j) = snd (edges ! k)
             \<or> fst (edges ! j) = snd (edges ! k) \<and> snd (edges ! j) = fst (edges ! k))"
    if "j < length edges" "k < length edges" for j k
  proof -
    from that have m: "edges ! j \<in> set edges" "edges ! k \<in> set edges" by simp_all
    from r(4) that have c: "C (edge_key (edges ! j)) = Some (mids ! j)"
      "C (edge_key (edges ! k)) = Some (mids ! k)" by simp_all
    have "(mids ! j = mids ! k) = (edge_key (edges ! j) = edge_key (edges ! k))"
      using c inj [of "edge_key (edges ! j)" "mids ! j" "edge_key (edges ! k)"] by auto
    also have "\<dots> = (ends (edges ! j) = ends (edges ! k))"
      using edge_key_eq_iff [of V0 "edges ! j" "edges ! k"] val m b by simp
    also have "\<dots> = (fst (edges ! j) = fst (edges ! k) \<and> snd (edges ! j) = snd (edges ! k)
             \<or> fst (edges ! j) = snd (edges ! k) \<and> snd (edges ! j) = fst (edges ! k))"
      by (auto simp: ends_def min_def max_def split: if_splits)
    finally show ?thesis .
  qed
  show ?thesis
    using r(1,2) tk len dom each same SubdivideIcosphere_requests by blast
qed

theorem GetMiddlePoint_shared_midpoint_witness:
  "list_all (\<lambda>e. IsValidIndex demo_triangle_vertices (fst e)
                \<and> IsValidIndex demo_triangle_vertices (snd e)) [(0, 1), (1, 2), (1, 0)]
   \<and> int (length demo_triangle_vertices) + int (length [(0::int, 1::int), (1, 2), (1, 0)])
        \<le> INT32_MAX
   \<and> request_midpoints [(0, 1), (1, 2), (1, 0)] demo_triangle_vertices Map.empty =
       Some ([3, 4, 3],
             demo_triangle_vertices @
               [Normalize (FVector (1 / 2) (1 / 2) 0), Normalize (FVector 0 (1 / 2) (1 / 2))],
             [1 \<mapsto> 3, 4294967298 \<mapsto> 4])"
proof -
  let ?V = demo_triangle_vertices
  let ?E = "[(0::int, 1::int), (1, 2), (1, 0)]"
  have h1: "list_all (\<lambda>e. IsValidIndex ?V (fst e) \<and> IsValidIndex ?V (snd e)) ?E"
    by (simp add: IsValidIndex_def demo_triangle_vertices_def)
  have h2: "int (length ?V) + int (length ?E) \<le> INT32_MAX"
    by (simp add: demo_triangle_vertices_def INT32_MAX_def)
  from GetMiddlePoint_shared_midpoint [OF h1 h2]
  obtain mids Vs C where r: "request_midpoints ?E ?V Map.empty = Some (mids, Vs, C)"
    and l: "length mids = length ?E" "take (length ?V) Vs = ?V"
      "length Vs = length ?V + card (ends ` set ?E)"
    and d: "dom C = (\<lambda>e. min (fst e) (snd e) * 2 ^ 32 + max (fst e) (snd e)) ` set ?E"
    and e: "\<forall>j<length ?E.
            C (min (fst (?E ! j)) (snd (?E ! j)) * 2 ^ 32
                 + max (fst (?E ! j)) (snd (?E ! j))) = Some (mids ! j)
          \<and> int (length ?V) \<le> mids ! j \<and> IsValidIndex Vs (mids ! j)
          \<and> Vs ! nat (mids ! j) =
              Normalize (vec_scale (vec_add (?V ! nat (fst (?E ! j)))
                                            (?V ! nat (snd (?E ! j)))) (1 / 2))"
    by blast
  have "request_midpoints ?E ?V Map.empty =
       Some ([3, 4, 3],
             ?V @ [Normalize (FVector (1 / 2) (1 / 2) 0), Normalize (FVector 0 (1 / 2) (1 / 2))],
             [1 \<mapsto> 3, 4294967298 \<mapsto> 4])"
    by (simp add: GetMiddlePoint_def MakeKey_def Let_def IsValidIndex_def INT32_MAX_def
        demo_triangle_vertices_def vec_add_def vec_scale_def)
  with h1 h2 r show ?thesis by simp
qed


subsection \<open>Runs of GenerateAsteroid\<close>

lemma length_layer_seeds_loop: "length (layer_seeds_loop E Layers s) = length Layers"
  by (induction Layers arbitrary: s) (auto split: prod.splits)

lemma length_apply_layer: "length (apply_layer E Layer seed m Vs) = length Vs"
  by (simp add: apply_layer_def split: prod.splits)

lemma apply_layers_loop_seeded:
  "layerIndex + length Layers \<le> length LayerSeeds \<Longrightarrow>
   snd (apply_layers_loop E Layers layerIndex LayerSeeds m Vs g) = g
   \<and> length (fst (apply_layers_loop E Layers layerIndex LayerSeeds m Vs g)) = length Vs"
proof (induction Layers arbitrary: layerIndex Vs)
  case Nil
  show ?case by simp
next
  case (Cons Layer rest)
  from Cons.prems have "layerIndex < length LayerSeeds" "Suc layerIndex + length rest \<le> length LayerSeeds"
    by simp_all
  with Cons.IH [of "Suc layerIndex"] show ?case
    by (simp add: length_apply_layer)
qed

lemma ApplyNoiseLayers_seeded:
  assumes "length Layers \<le> length LayerSeeds"
  shows "snd (ApplyNoiseLayers E Layers Vs LayerSeeds m g) = g"
    and "length (fst (ApplyNoiseLayers E Layers Vs LayerSeeds m g)) = length Vs"
  using apply_layers_loop_seeded [of 0 Layers LayerSeeds E m Vs g] assms
  by (simp_all add: ApplyNoiseLayers_def)

lemma resolve_seeds_length: "length (fst (resolve_seeds E A g0)) = length (NoiseLayers A)"
  by (simp add: resolve_seeds_def length_layer_seeds_loop split: prod.splits)

lemma displaced_icosphere_Some:
  assumes "length LayerSeeds = length (NoiseLayers A)" and "Subdivisions A \<le> 12"
  shows "\<exists>Vertices0 Triangles. BuildBaseIcosphere (Subdivisions A) = Some (Vertices0, Triangles)
     \<and> displaced_icosphere E A LayerSeeds g1 =
         Some (fst (ApplyNoiseLayers E (NoiseLayers A) Vertices0 LayerSeeds
                      (MaxDisplacementFraction A) g1), Triangles, g1)"
proof -
  from BuildBaseIcosphere_Some [OF assms(2)]
  obtain Vertices0 Triangles where b: "BuildBaseIcosphere (Subdivisions A) = Some (Vertices0, Triangles)"
    by blast
  have "snd (ApplyNoiseLayers E (NoiseLayers A) Vertices0 LayerSeeds (MaxDisplacementFraction A) g1) = g1"
    using ApplyNoiseLayers_seeded(1) [of "NoiseLayers A" LayerSeeds] assms(1) by simp
  with b show ?thesis
    by (auto simp: displaced_icosphere_def split: prod.splits)
qed

text \<open>The statistics of a run, in closed form.\<close>

lemma GenerateAsteroid_Some:
  assumes "resolve_seeds E A g0 = (LayerSeeds, g1)"
    and "RandRange_float E (MinRadius A) (MaxRadius A) g1 = (ChosenRadius, g3)"
    and "Subdivisions A \<le> 12"
  shows "\<exists>Vertices1 Triangles A2.
     displaced_icosphere E A LayerSeeds g1 = Some (Vertices1, Triangles, g1)
   \<and> A2 = (CalculateStats A ChosenRadius)
            \<lparr>AsteroidStats := (AsteroidStats (CalculateStats A ChosenRadius))
               \<lparr>NoiseLayerSeeds := LayerSeeds\<rparr>\<rparr>
   \<and> GenerateAsteroid E A g0 =
       Some (A2,
         [CreateMeshSection 0 (map (\<lambda>V. vec_scale V ChosenRadius) (NormalizeVertices Vertices1))
            Triangles False,
          ClearCollisionConvexMeshes,
          AddCollisionConvexMesh (map (\<lambda>V. vec_scale V ChosenRadius) (NormalizeVertices Vertices1)),
          SetCollisionEnabled] @
         (if bEnablePhysics A
          then [SetSimulatePhysics True, SetMassOverrideInKg (Mass (AsteroidStats A2)) True]
          else []) @
         [Broadcast (AsteroidStats A2),
          UE_LOG (Radius (AsteroidStats A2)) (Volume (AsteroidStats A2)) (Mass (AsteroidStats A2))],
         g3)"
proof -
  have len: "length LayerSeeds = length (NoiseLayers A)"
    using resolve_seeds_length [of E A g0] assms(1) by simp
  from displaced_icosphere_Some [OF len assms(3), of E g1]
  obtain Vertices1 Triangles where d: "displaced_icosphere E A LayerSeeds g1 = Some (Vertices1, Triangles, g1)"
    by blast
  have p: "bEnablePhysics (CalculateStats A ChosenRadius) = bEnablePhysics A"
    by (simp add: CalculateStats_def Let_def)
  show ?thesis
    using assms(1,2) d p
    by (simp add: GenerateAsteroid_def Let_def CreateMeshFromData_def)
qed

text \<open>
  A run returns exactly when the level is at most 12: from level 13 on it is aborted in
  \<^verbatim>\<open>BuildBaseIcosphere\<close>, before the radius is drawn and before any call is made.
\<close>

lemma GenerateAsteroid_overflow:
  assumes "13 \<le> Subdivisions A"
  shows "GenerateAsteroid E A g0 = None"
  using BuildBaseIcosphere_overflow [OF assms]
  by (simp add: GenerateAsteroid_def displaced_icosphere_def split: prod.splits)

lemma GenerateAsteroid_returns_iff:
  "(\<exists>r. GenerateAsteroid E A g0 = Some r) \<longleftrightarrow> Subdivisions A \<le> 12"
proof (cases "Subdivisions A \<le> 12")
  case True
  from GenerateAsteroid_Some [OF surjective_pairing surjective_pairing True, of E g0]
  show ?thesis using True by auto
next
  case False
  then have "13 \<le> Subdivisions A" by simp
  from GenerateAsteroid_overflow [OF this, of E g0] False show ?thesis by simp
qed

lemma AsteroidStats_CalculateStats:
  "AsteroidStats (CalculateStats A R) =
     (AsteroidStats A)\<lparr>Radius := R, Volume := CalculateVolumeFromRadius R,
        Mass := CalculateVolumeFromRadius R * Density A, NoiseLayerSeeds := []\<rparr>"
  by (simp add: CalculateStats_def Let_def)

lemma generated_stats_GenerateAsteroid:
  assumes "resolve_seeds E A g0 = (LayerSeeds, g1)"
    and "RandRange_float E (MinRadius A) (MaxRadius A) g1 = (ChosenRadius, g3)"
    and "Subdivisions A \<le> 12"
  shows "generated_stats (GenerateAsteroid E A g0) =
     Some ((AsteroidStats A)\<lparr>Radius := ChosenRadius,
        Volume := CalculateVolumeFromRadius ChosenRadius,
        Mass := CalculateVolumeFromRadius ChosenRadius * Density A,
        NoiseLayerSeeds := LayerSeeds\<rparr>)"
  using GenerateAsteroid_Some [OF assms]
  by (auto simp: generated_stats_def AsteroidStats_CalculateStats)

text \<open>
  Claim C7. For an asteroid that is generated (a level of at most 12: the runs that
  return), the stored volume is \<open>4/3 \<pi> R\<^sup>3\<close> for the stored radius \<open>R\<close>, which is the
  chosen radius, and the stored mass is that volume times the configured density.
\<close>

theorem GenerateAsteroid_volume_mass:
  assumes "Subdivisions A \<le> 12"
  shows "\<exists>Stats. generated_stats (GenerateAsteroid E A g0) = Some Stats
     \<and> Radius Stats = fst (RandRange_float E (MinRadius A) (MaxRadius A) (snd (resolve_seeds E A g0)))
     \<and> Volume Stats = (4 / 3) * pi * Radius Stats ^ 3
     \<and> Mass Stats = Volume Stats * Density A"
  using generated_stats_GenerateAsteroid [OF surjective_pairing surjective_pairing assms, of E g0]
  by (simp add: CalculateVolumeFromRadius_def PI_def power3_eq_cube)

theorem GenerateAsteroid_volume_mass_witness:
  "Subdivisions demo_actor \<le> 12
   \<and> map_option Radius (generated_stats (GenerateAsteroid demo_engine demo_actor 0)) = Some 100
   \<and> map_option Volume (generated_stats (GenerateAsteroid demo_engine demo_actor 0))
       = Some ((4 / 3) * pi * 100 ^ 3)
   \<and> map_option Mass (generated_stats (GenerateAsteroid demo_engine demo_actor 0))
       = Some ((4 / 3) * pi * 100 ^ 3 * 2000)"
proof -
  have h: "Subdivisions demo_actor \<le> 12" by (simp add: demo_actor_def)
  have r: "fst (RandRange_float demo_engine (MinRadius demo_actor) (MaxRadius demo_actor)
             (snd (resolve_seeds demo_engine demo_actor 0))) = 100"
    by (simp add: RandRange_float_def demo_actor_def split: prod.splits)
  have d: "Density demo_actor = 2000" by (simp add: demo_actor_def)
  from GenerateAsteroid_volume_mass [OF h, of demo_engine 0] h
  show ?thesis unfolding r d by auto
qed

lemma layer_seeds_loop_explicit:
  "i < length Layers \<Longrightarrow> 0 \<le> Seed (Layers ! i) \<Longrightarrow>
   layer_seeds_loop E Layers s ! i = Seed (Layers ! i)"
proof (induction Layers arbitrary: s i)
  case Nil
  then show ?case by simp
next
  case (Cons Layer rest)
  show ?case
  proof (cases i)
    case 0
    with Cons.prems show ?thesis by simp
  next
    case (Suc k)
    with Cons.prems Cons.IH [of k] show ?thesis
      by (simp split: prod.splits)
  qed
qed

text \<open>
  Claim C8. The seeds recorded in the statistics of a run (a level of at most 12: the
  runs that return) are the result of the seed loop run on
  a stream seeded with the resolved global seed: one seed per layer, in order; a layer's
  configured seed when that is not negative, and otherwise a draw from the stream. They
  depend on the engine, the layers and the resolved global seed only.
\<close>

theorem GenerateAsteroid_layer_seeds:
  assumes "Subdivisions A \<le> 12"
  shows "\<exists>Stats. generated_stats (GenerateAsteroid E A g0) = Some Stats
     \<and> NoiseLayerSeeds Stats =
         layer_seeds_loop E (NoiseLayers A)
           (StreamInit E (if GlobalSeed A < 0 then fst (Rand E g0) else GlobalSeed A))
     \<and> length (NoiseLayerSeeds Stats) = length (NoiseLayers A)
     \<and> (\<forall>i < length (NoiseLayers A). 0 \<le> Seed (NoiseLayers A ! i) \<longrightarrow>
           NoiseLayerSeeds Stats ! i = Seed (NoiseLayers A ! i))
     \<and> (\<forall>Layer rest s. Seed Layer < 0 \<longrightarrow>
           layer_seeds_loop E (Layer # rest) s =
             fst (StreamRandRange E s 0 INT32_MAX) #
             layer_seeds_loop E rest (snd (StreamRandRange E s 0 INT32_MAX)))"
proof -
  have "fst (resolve_seeds E A g0) =
      layer_seeds_loop E (NoiseLayers A)
        (StreamInit E (if GlobalSeed A < 0 then fst (Rand E g0) else GlobalSeed A))"
    by (simp add: resolve_seeds_def split: prod.splits)
  then show ?thesis
    using generated_stats_GenerateAsteroid [OF surjective_pairing surjective_pairing assms, of E g0]
    by (simp add: length_layer_seeds_loop layer_seeds_loop_explicit split: prod.splits)
qed

theorem GenerateAsteroid_layer_seeds_witness:
  "Subdivisions demo_actor_mixed \<le> 12
   \<and> (0::nat) < length (NoiseLayers demo_actor_mixed) \<and> 0 \<le> Seed (NoiseLayers demo_actor_mixed ! 0)
   \<and> Seed (NoiseLayers demo_actor_mixed ! 1) < 0
   \<and> map_option NoiseLayerSeeds
         (generated_stats (GenerateAsteroid demo_engine demo_actor_mixed 0)) = Some [7, 42]"
proof -
  have h: "Subdivisions demo_actor_mixed \<le> 12"
    by (simp add: demo_actor_mixed_def demo_actor_def)
  from GenerateAsteroid_layer_seeds [OF h, of demo_engine 0] h
  show ?thesis
    by (auto simp: demo_actor_mixed_def demo_actor_def demo_engine_def INT32_MAX_def)
qed

text \<open>
  Claim C9. When \<^verbatim>\<open>MinRadius\<close> and \<^verbatim>\<open>MaxRadius\<close> are the same number, that number is the
  radius stored in the statistics and the factor every vertex is scaled by, whatever
  the engine's generators return, in every run in which a radius is chosen (a level of
  at most 12: the runs that return).
\<close>

theorem GenerateAsteroid_degenerate_radius:
  assumes "MinRadius A = R0" and "MaxRadius A = R0" and "Subdivisions A \<le> 12"
  shows "\<exists>Stats Vertices1 Triangles g1.
       generated_stats (GenerateAsteroid E A g0) = Some Stats \<and> Radius Stats = R0
     \<and> displaced_icosphere E A (fst (resolve_seeds E A g0)) (snd (resolve_seeds E A g0))
         = Some (Vertices1, Triangles, g1)
     \<and> uploaded_mesh (GenerateAsteroid E A g0)
         = Some (map (\<lambda>V. vec_scale V R0) (NormalizeVertices Vertices1), Triangles)"
proof -
  have "fst (RandRange_float E (MinRadius A) (MaxRadius A) (snd (resolve_seeds E A g0))) = R0"
    using assms(1,2) by (simp add: RandRange_float_def split: prod.splits)
  then obtain g3 where
    r: "RandRange_float E (MinRadius A) (MaxRadius A) (snd (resolve_seeds E A g0)) = (R0, g3)"
    by (metis surjective_pairing)
  from GenerateAsteroid_Some [OF surjective_pairing r assms(3)]
    generated_stats_GenerateAsteroid [OF surjective_pairing r assms(3)]
  show ?thesis
    by (auto simp: uploaded_mesh_def)
qed

theorem GenerateAsteroid_degenerate_radius_witness:
  "MinRadius demo_actor = 100 \<and> MaxRadius demo_actor = 100 \<and> Subdivisions demo_actor \<le> 12
   \<and> map_option Radius (generated_stats (GenerateAsteroid demo_engine demo_actor 3)) = Some 100"
proof -
  have h: "MinRadius demo_actor = 100" "MaxRadius demo_actor = 100" "Subdivisions demo_actor \<le> 12"
    by (simp_all add: demo_actor_def)
  from GenerateAsteroid_degenerate_radius [OF h, of demo_engine 3] h
  show ?thesis by auto
qed

lemma broadcasts_append: "broadcasts (xs @ ys) = broadcasts xs @ broadcasts ys"
  by (induction xs rule: broadcasts.induct) simp_all

text \<open>
  Claim C10. A call of \<^verbatim>\<open>GenerateAsteroid\<close> (and so \<^verbatim>\<open>BeginPlay\<close>) for a level of at
  most 12 returns, and among the calls it makes there is exactly one broadcast. Its
  payload is the statistics as the actor holds them at the end: the radius is the chosen
  radius, the one drawn between \<^verbatim>\<open>MinRadius\<close> and \<^verbatim>\<open>MaxRadius\<close> that the uploaded mesh is
  scaled by; the volume is \<open>4/3 \<pi> R\<^sup>3\<close> for that radius and the mass is the volume times
  the density, as \<^verbatim>\<open>CalculateStats\<close> stores them; and the seeds are the resolved seeds,
  one per layer. (A call for a higher level is aborted before it makes any call.)
\<close>

theorem GenerateAsteroid_broadcast_once:
  assumes "Subdivisions A \<le> 12"
  shows "\<exists>A' calls g' before after Vertices1 Triangles g1.
       GenerateAsteroid E A g0 = Some (A', calls, g')
     \<and> BeginPlay E A g0 = Some (A', calls, g')
     \<and> broadcasts calls = [AsteroidStats A']
     \<and> calls = before @ [Broadcast (AsteroidStats A')] @ after
     \<and> broadcasts before = [] \<and> broadcasts after = []
     \<and> NoiseLayerSeeds (AsteroidStats A') = fst (resolve_seeds E A g0)
     \<and> length (NoiseLayerSeeds (AsteroidStats A')) = length (NoiseLayers A)
     \<and> Volume (AsteroidStats A') = CalculateVolumeFromRadius (Radius (AsteroidStats A'))
     \<and> Mass (AsteroidStats A') = Volume (AsteroidStats A') * Density A
     \<and> Radius (AsteroidStats A') =
         fst (RandRange_float E (MinRadius A) (MaxRadius A) (snd (resolve_seeds E A g0)))
     \<and> Volume (AsteroidStats A') = (4 / 3) * pi * Radius (AsteroidStats A') ^ 3
     \<and> Mass (AsteroidStats A') = (4 / 3) * pi * Radius (AsteroidStats A') ^ 3 * Density A
     \<and> displaced_icosphere E A (fst (resolve_seeds E A g0)) (snd (resolve_seeds E A g0))
         = Some (Vertices1, Triangles, g1)
     \<and> hd calls = CreateMeshSection 0
         (map (\<lambda>V. vec_scale V (Radius (AsteroidStats A'))) (NormalizeVertices Vertices1))
         Triangles False"
proof -
  obtain LayerSeeds g1 where s: "resolve_seeds E A g0 = (LayerSeeds, g1)" by force
  obtain R g3 where r: "RandRange_float E (MinRadius A) (MaxRadius A) g1 = (R, g3)" by force
  from GenerateAsteroid_Some [OF s r assms]
  obtain Vertices1 Triangles A2 where
    d: "displaced_icosphere E A LayerSeeds g1 = Some (Vertices1, Triangles, g1)"
    and a2: "A2 = (CalculateStats A R)\<lparr>AsteroidStats := (AsteroidStats (CalculateStats A R))
               \<lparr>NoiseLayerSeeds := LayerSeeds\<rparr>\<rparr>"
    and g: "GenerateAsteroid E A g0 =
       Some (A2,
         [CreateMeshSection 0 (map (\<lambda>V. vec_scale V R) (NormalizeVertices Vertices1))
            Triangles False,
          ClearCollisionConvexMeshes,
          AddCollisionConvexMesh (map (\<lambda>V. vec_scale V R) (NormalizeVertices Vertices1)),
          SetCollisionEnabled] @
         (if bEnablePhysics A
          then [SetSimulatePhysics True, SetMassOverrideInKg (Mass (AsteroidStats A2)) True]
          else []) @
         [Broadcast (AsteroidStats A2),
          UE_LOG (Radius (AsteroidStats A2)) (Volume (AsteroidStats A2)) (Mass (AsteroidStats A2))],
         g3)" by blast
  let ?mesh = "CreateMeshSection 0 (map (\<lambda>V. vec_scale V R) (NormalizeVertices Vertices1))
            Triangles False"
  let ?before = "[?mesh,
          ClearCollisionConvexMeshes,
          AddCollisionConvexMesh (map (\<lambda>V. vec_scale V R) (NormalizeVertices Vertices1)),
          SetCollisionEnabled] @
         (if bEnablePhysics A
          then [SetSimulatePhysics True, SetMassOverrideInKg (Mass (AsteroidStats A2)) True]
          else [])"
  let ?after = "[UE_LOG (Radius (AsteroidStats A2)) (Volume (AsteroidStats A2)) (Mass (AsteroidStats A2))]"
  let ?calls = "?before @ [Broadcast (AsteroidStats A2)] @ ?after"
  have b: "broadcasts ?before = []" by simp
  have c: "broadcasts ?after = []" by simp
  have len: "length LayerSeeds = length (NoiseLayers A)"
    using resolve_seeds_length [of E A g0] s by simp
  have st: "NoiseLayerSeeds (AsteroidStats A2) = fst (resolve_seeds E A g0)"
    "length (NoiseLayerSeeds (AsteroidStats A2)) = length (NoiseLayers A)"
    "Volume (AsteroidStats A2) = CalculateVolumeFromRadius (Radius (AsteroidStats A2))"
    "Mass (AsteroidStats A2) = Volume (AsteroidStats A2) * Density A"
    "Radius (AsteroidStats A2) =
       fst (RandRange_float E (MinRadius A) (MaxRadius A) (snd (resolve_seeds E A g0)))"
    by (simp_all add: a2 AsteroidStats_CalculateStats s r len)
  have rad: "Radius (AsteroidStats A2) = R" by (simp add: a2 AsteroidStats_CalculateStats)
  have vol: "Volume (AsteroidStats A2) = (4 / 3) * pi * Radius (AsteroidStats A2) ^ 3"
    "Mass (AsteroidStats A2) = (4 / 3) * pi * Radius (AsteroidStats A2) ^ 3 * Density A"
    by (simp_all add: a2 AsteroidStats_CalculateStats CalculateVolumeFromRadius_def PI_def
        power3_eq_cube)
  have run: "GenerateAsteroid E A g0 = Some (A2, ?calls, g3)"
    using g by simp
  have one: "broadcasts ?calls = [AsteroidStats A2]"
    unfolding broadcasts_append b c by simp
  have hd: "hd ?calls = CreateMeshSection 0
         (map (\<lambda>V. vec_scale V (Radius (AsteroidStats A2))) (NormalizeVertices Vertices1))
         Triangles False"
    unfolding rad by simp
  have di: "displaced_icosphere E A (fst (resolve_seeds E A g0)) (snd (resolve_seeds E A g0))
         = Some (Vertices1, Triangles, g1)" using d s by simp
  show ?thesis
    unfolding BeginPlay_def
    apply (rule exI [of _ A2], rule exI [of _ ?calls], rule exI [of _ g3])
    apply (rule exI [of _ ?before], rule exI [of _ ?after])
    apply (rule exI [of _ Vertices1], rule exI [of _ Triangles], rule exI [of _ g1])
    apply (intro conjI run one b c st vol di hd refl)
    done
qed

theorem GenerateAsteroid_broadcast_once_witness:
  "Subdivisions demo_actor \<le> 12
   \<and> map_option (\<lambda>r. map Radius (broadcasts (fst (snd r))))
        (GenerateAsteroid demo_engine demo_actor 0) = Some [100]
   \<and> map_option (\<lambda>r. map Volume (broadcasts (fst (snd r))))
        (GenerateAsteroid demo_engine demo_actor 0) = Some [(4 / 3) * pi * 100 ^ 3]
   \<and> map_option (\<lambda>r. map Mass (broadcasts (fst (snd r))))
        (GenerateAsteroid demo_engine demo_actor 0) = Some [(4 / 3) * pi * 100 ^ 3 * 2000]
   \<and> map_option (\<lambda>r. map NoiseLayerSeeds (broadcasts (fst (snd r))))
        (GenerateAsteroid demo_engine demo_actor 0) = Some [[7]]"
proof -
  have h: "Subdivisions demo_actor \<le> 12" by (simp add: demo_actor_def)
  have r: "fst (RandRange_float demo_engine (MinRadius demo_actor) (MaxRadius demo_actor)
             (snd (resolve_seeds demo_engine demo_actor 0))) = 100"
    by (simp add: RandRange_float_def demo_actor_def split: prod.splits)
  have d: "Density demo_actor = 2000" by (simp add: demo_actor_def)
  have s: "fst (resolve_seeds demo_engine demo_actor 0) = [7]"
    by (simp add: resolve_seeds_def demo_actor_def)
  from GenerateAsteroid_broadcast_once [OF h, of demo_engine 0] h
  show ?thesis unfolding r d s by auto
qed

text \<open>The radius of a run with explicit seeds is read off the process-wide generator.\<close>

lemma GenerateAsteroid_radius:
  assumes "0 \<le> GlobalSeed A" and "Subdivisions A \<le> 12"
  shows "map_option Radius (generated_stats (GenerateAsteroid E A g0)) =
     Some (MinRadius A + (MaxRadius A - MinRadius A) * fst (FRand E g0))"
proof -
  have s: "snd (resolve_seeds E A g0) = g0"
    using assms(1) by (simp add: resolve_seeds_def)
  have r: "fst (RandRange_float E (MinRadius A) (MaxRadius A) g0) =
      MinRadius A + (MaxRadius A - MinRadius A) * fst (FRand E g0)"
    by (simp add: RandRange_float_def split: prod.splits)
  from generated_stats_GenerateAsteroid [OF surjective_pairing surjective_pairing assms(2), of E g0]
  show ?thesis by (simp add: s r)
qed

text \<open>
  Claim C1, evaluated: with the global seed 42 and the layer seed 7 both explicit, two
  runs of the same configuration that find the process-wide generator in different
  states store different radii (437.5 and 625).
\<close>

theorem GenerateAsteroid_radius_not_reproducible:
  "0 \<le> GlobalSeed demo_actor_range
   \<and> list_all (\<lambda>Layer. 0 \<le> Seed Layer) (NoiseLayers demo_actor_range)
   \<and> map_option Radius (generated_stats (GenerateAsteroid demo_engine demo_actor_range 1))
       = Some (875 / 2)
   \<and> map_option Radius (generated_stats (GenerateAsteroid demo_engine demo_actor_range 2))
       = Some 625"
proof -
  have g: "0 \<le> GlobalSeed demo_actor_range" "Subdivisions demo_actor_range \<le> 12"
    by (simp_all add: demo_actor_range_def demo_actor_def)
  show ?thesis
    using GenerateAsteroid_radius [OF g, of demo_engine 1]
      GenerateAsteroid_radius [OF g, of demo_engine 2]
    by (simp add: demo_actor_range_def demo_actor_def demo_engine_def)
qed

subsection \<open>Vectors, normalization and the clamp\<close>

lemma SizeSquared_nonneg: "0 \<le> SizeSquared v"
  by (simp add: SizeSquared_def)

lemma SizeSquared_vec_scale: "SizeSquared (vec_scale v c) = c * c * SizeSquared v"
  by (simp add: SizeSquared_def vec_scale_def algebra_simps)

lemma vec_scale_vec_scale: "vec_scale (vec_scale v a) b = vec_scale v (a * b)"
  by (simp add: vec_scale_def algebra_simps)

lemma vec_scale_one: "vec_scale v 1 = v"
  by (simp add: vec_scale_def)

lemma vec_add_scale: "vec_add (vec_scale u a) (vec_scale u b) = vec_scale u (a + b)"
  by (simp add: vec_add_def vec_scale_def algebra_simps)

lemma SMALL_NUMBER_pos: "0 < SMALL_NUMBER" and SMALL_NUMBER_less_one: "SMALL_NUMBER < 1"
  by (simp_all add: SMALL_NUMBER_def)

lemma Size_vec_scale: "Size (vec_scale v c) = \<bar>c\<bar> * Size v"
proof -
  have "sqrt (c * c * SizeSquared v) = sqrt (c * c) * sqrt (SizeSquared v)"
    by (rule real_sqrt_mult)
  then show ?thesis
    by (simp add: Size_def SizeSquared_vec_scale)
qed

lemma SizeSquared_Normalize:
  assumes "SizeSquared v > SMALL_NUMBER"
  shows "SizeSquared (Normalize v) = 1"
proof -
  have pos: "0 < SizeSquared v" using assms SMALL_NUMBER_pos by linarith
  have "(1 / sqrt (SizeSquared v)) * (1 / sqrt (SizeSquared v)) * SizeSquared v = 1"
    using pos by (simp add: field_simps)
  then show ?thesis
    using assms by (simp add: Normalize_def Let_def SizeSquared_vec_scale)
qed

lemma Size_Normalize: "SizeSquared v > SMALL_NUMBER \<Longrightarrow> Size (Normalize v) = 1"
  by (simp add: Size_def SizeSquared_Normalize)

lemma SizeSquared_Normalize_le: "SizeSquared (Normalize v) \<le> 1"
proof (cases "SizeSquared v > SMALL_NUMBER")
  case True
  then show ?thesis by (simp add: SizeSquared_Normalize)
next
  case False
  then have "Normalize v = v" by (simp add: Normalize_def Let_def)
  with False SMALL_NUMBER_less_one show ?thesis by simp
qed

lemma Normalize_unit: "SizeSquared v = 1 \<Longrightarrow> Normalize v = v"
  using SMALL_NUMBER_less_one by (simp add: Normalize_def Let_def vec_scale_one)

lemma Normalize_scaled_unit:
  assumes "SizeSquared u = 1" and "0 < c" and "c * c > SMALL_NUMBER"
  shows "Normalize (vec_scale u c) = u"
proof -
  have "sqrt (c * c) = c" using assms(2) by simp
  then show ?thesis
    using assms by (simp add: Normalize_def Let_def SizeSquared_vec_scale vec_scale_vec_scale vec_scale_one)
qed

lemma Clamp_bounds: "0 \<le> m \<Longrightarrow> \<bar>Clamp x (- m) m\<bar> \<le> m"
  by (auto simp: Clamp_def)

lemma vertex_displacement_bounded:
  "0 \<le> m \<Longrightarrow> \<bar>vertex_displacement E Layer ox oy oz m V\<bar> \<le> m"
  by (simp add: vertex_displacement_def Let_def Clamp_bounds)

lemma nth_apply_layer:
  "i < length Vertices \<Longrightarrow> \<exists>ox oy oz.
     apply_layer E Layer seed m Vertices ! i = displace_vertex E Layer ox oy oz m (Vertices ! i)"
  by (auto simp: apply_layer_def split: prod.splits)

text \<open>
  Claim C5. With a clamp bound that is not negative, the scalar that a layer applies to
  a vertex is within the bound in absolute value, and so is the distance the vertex
  moves: each vertex of a layer pass is the old vertex plus its normal times such a
  scalar.
\<close>

theorem ApplyNoiseLayers_displacement_clamped:
  assumes "0 \<le> MaxDisplacementFrac"
  shows "\<bar>vertex_displacement E Layer ox oy oz MaxDisplacementFrac V\<bar> \<le> MaxDisplacementFrac
     \<and> (\<forall>i < length Vertices. \<exists>d. \<bar>d\<bar> \<le> MaxDisplacementFrac
           \<and> apply_layer E Layer seed MaxDisplacementFrac Vertices ! i
               = vec_add (Vertices ! i) (vec_scale (Normalize (Vertices ! i)) d)
           \<and> Size (vec_scale (Normalize (Vertices ! i)) d) \<le> MaxDisplacementFrac)"
proof (intro conjI allI impI)
  show "\<bar>vertex_displacement E Layer ox oy oz MaxDisplacementFrac V\<bar> \<le> MaxDisplacementFrac"
    using assms by (rule vertex_displacement_bounded)
next
  fix i assume i: "i < length Vertices"
  from nth_apply_layer [OF i, of E Layer seed MaxDisplacementFrac]
  obtain ox' oy' oz' where
    a: "apply_layer E Layer seed MaxDisplacementFrac Vertices ! i
          = displace_vertex E Layer ox' oy' oz' MaxDisplacementFrac (Vertices ! i)" by blast
  let ?d = "vertex_displacement E Layer ox' oy' oz' MaxDisplacementFrac (Vertices ! i)"
  have d: "\<bar>?d\<bar> \<le> MaxDisplacementFrac"
    using assms by (rule vertex_displacement_bounded)
  have "sqrt (SizeSquared (Normalize (Vertices ! i))) \<le> 1"
    using SizeSquared_Normalize_le [of "Vertices ! i"] by simp
  then have "\<bar>?d\<bar> * Size (Normalize (Vertices ! i)) \<le> \<bar>?d\<bar> * 1"
    unfolding Size_def by (intro mult_left_mono) simp_all
  with d have "Size (vec_scale (Normalize (Vertices ! i)) ?d) \<le> MaxDisplacementFrac"
    by (simp add: Size_vec_scale)
  with a d show "\<exists>d. \<bar>d\<bar> \<le> MaxDisplacementFrac
           \<and> apply_layer E Layer seed MaxDisplacementFrac Vertices ! i
               = vec_add (Vertices ! i) (vec_scale (Normalize (Vertices ! i)) d)
           \<and> Size (vec_scale (Normalize (Vertices ! i)) d) \<le> MaxDisplacementFrac"
    unfolding displace_vertex_def by blast
qed

theorem ApplyNoiseLayers_displacement_clamped_witness:
  "(0::real) \<le> 1 / 2 \<and> (0::nat) < length [FVector 1 0 0]
   \<and> \<bar>vertex_displacement demo_engine \<lparr>Scale = 1 / 10, Intensity = 4, Seed = 7\<rparr> 0 0 0 (1 / 2)
        (FVector 1 0 0)\<bar> \<le> 1 / 2
   \<and> (\<exists>d. \<bar>d\<bar> \<le> 1 / 2
        \<and> apply_layer demo_engine \<lparr>Scale = 1 / 10, Intensity = 4, Seed = 7\<rparr> 7 (1 / 2) [FVector 1 0 0] ! 0
            = vec_add (FVector 1 0 0) (vec_scale (Normalize (FVector 1 0 0)) d))"
proof -
  have h: "(0::real) \<le> 1 / 2" by simp
  from ApplyNoiseLayers_displacement_clamped [OF h, of demo_engine
      "\<lparr>Scale = 1 / 10, Intensity = 4, Seed = 7\<rparr>" 0 0 0 "FVector 1 0 0" "[FVector 1 0 0]" 7]
  show ?thesis by auto
qed

subsection \<open>Displacement along the normal\<close>

lemma tolerance_square: "1 / 10 ^ 4 < c \<Longrightarrow> SMALL_NUMBER < c * c"
proof -
  assume c: "1 / 10 ^ 4 < (c::real)"
  have "(1 / 10 ^ 4) * (1 / 10 ^ 4) < c * c"
    using c by (intro mult_strict_mono) simp_all
  then show ?thesis by (simp add: SMALL_NUMBER_def)
qed

lemma displace_vertex_radial:
  assumes "SizeSquared u = 1" and "0 \<le> m" and "1 / 10 ^ 4 < lo" and "radial lo u v"
  shows "radial (lo - m) u (displace_vertex E Layer ox oy oz m v)"
proof -
  from assms(4) obtain c where v: "v = vec_scale u c" and c: "lo \<le> c"
    by (auto simp: radial_def)
  have c4: "1 / 10 ^ 4 < c" using assms(3) c by linarith
  then have "0 < c" by (simp add: less_trans [rotated])
  then have n: "Normalize v = u"
    using Normalize_scaled_unit [OF assms(1) _ tolerance_square [OF c4]] v by simp
  let ?d = "vertex_displacement E Layer ox oy oz m v"
  have "\<bar>?d\<bar> \<le> m" using assms(2) by (rule vertex_displacement_bounded)
  then have "lo - m \<le> c + ?d" using c by linarith
  moreover have "displace_vertex E Layer ox oy oz m v = vec_scale u (c + ?d)"
    by (simp add: displace_vertex_def n) (simp add: v vec_add_scale)
  ultimately show ?thesis by (auto simp: radial_def)
qed

lemma apply_layer_radial:
  assumes "\<forall>u\<in>set U. SizeSquared u = 1" and "0 \<le> m" and "1 / 10 ^ 4 < lo"
    and "list_all2 (radial lo) U Vs"
  shows "list_all2 (radial (lo - m)) U (apply_layer E Layer seed m Vs)"
proof -
  have "list_all2 (radial (lo - m)) U (map (displace_vertex E Layer ox oy oz m) Vs)" for ox oy oz
    using assms(4) assms(1)
  proof (induction rule: list_all2_induct)
    case Nil
    show ?case by simp
  next
    case (Cons u U v Vs)
    then show ?case
      using displace_vertex_radial [OF _ assms(2) assms(3), of u v] by simp
  qed
  then show ?thesis
    by (simp add: apply_layer_def split: prod.splits)
qed

lemma apply_layers_loop_radial:
  "\<forall>u\<in>set U. SizeSquared u = 1 \<Longrightarrow> 0 \<le> m \<Longrightarrow>
   1 / 10 ^ 4 < lo - real (length Layers) * m \<Longrightarrow> list_all2 (radial lo) U Vs \<Longrightarrow>
   list_all2 (radial (lo - real (length Layers) * m)) U
     (fst (apply_layers_loop E Layers layerIndex LayerSeeds m Vs g))"
proof (induction Layers arbitrary: lo Vs layerIndex g)
  case Nil
  then show ?case by simp
next
  case (Cons Layer rest)
  have e: "lo - real (length (Layer # rest)) * m = lo - m - real (length rest) * m"
    by (simp add: algebra_simps)
  have "0 \<le> real (length rest) * m" using Cons.prems(2) by simp
  with Cons.prems(3) e have lo: "1 / 10 ^ 4 < lo" using Cons.prems(2) by linarith
  have step: "list_all2 (radial (lo - m)) U (apply_layer E Layer seed m Vs)" for seed
    using apply_layer_radial [OF Cons.prems(1) Cons.prems(2) lo Cons.prems(4)] .
  have rest: "1 / 10 ^ 4 < lo - m - real (length rest) * m"
    using Cons.prems(3) e by simp
  show ?case
    unfolding e
    using Cons.IH [OF Cons.prems(1) Cons.prems(2) rest step]
    by (simp split: prod.splits)
qed

lemma Normalize_radial:
  assumes "list_all2 (radial lo) U Vs" and "1 / 10 ^ 4 < lo" and "\<forall>u\<in>set U. SizeSquared u = 1"
  shows "map Normalize Vs = U"
  using assms(1) assms(3)
proof (induction rule: list_all2_induct)
  case Nil
  show ?case by simp
next
  case (Cons u U v Vs)
  from Cons.hyps(1) obtain c where v: "v = vec_scale u c" and c: "lo \<le> c"
    by (auto simp: radial_def)
  have c4: "1 / 10 ^ 4 < c" using assms(2) c by linarith
  then have "0 < c" by (simp add: less_trans [rotated])
  then have "Normalize v = u"
    using Normalize_scaled_unit [OF _ _ tolerance_square [OF c4], of u] v Cons.prems by simp
  with Cons show ?case by simp
qed

lemma list_all2_radial_refl: "list_all2 (radial 1) U U"
  by (rule list_all2_refl) (auto simp: radial_def vec_scale_one intro: exI [of _ 1])

text \<open>
  On unit vectors, and with clamp bounds that sum to less than \<open>1 - 10\<^sup>-\<^sup>4\<close>, normalizing
  after the noise layers gives back the vectors the layers started from.
\<close>

lemma NormalizeVertices_ApplyNoiseLayers:
  assumes "\<forall>u\<in>set U. SizeSquared u = 1" and "0 \<le> m"
    and "real (length Layers) * m < 1 - 1 / 10 ^ 4"
  shows "NormalizeVertices (fst (ApplyNoiseLayers E Layers U LayerSeeds m g)) = U"
proof (cases "length U = 0")
  case True
  then show ?thesis by (simp add: ApplyNoiseLayers_def NormalizeVertices_def)
next
  case False
  have lo: "1 / 10 ^ 4 < 1 - real (length Layers) * m" using assms(3) by linarith
  from apply_layers_loop_radial [OF assms(1) assms(2) lo list_all2_radial_refl]
  have "list_all2 (radial (1 - real (length Layers) * m)) U
     (fst (apply_layers_loop E Layers 0 LayerSeeds m U g))" .
  from Normalize_radial [OF this lo assms(1)] False show ?thesis
    by (simp add: ApplyNoiseLayers_def NormalizeVertices_def)
qed

lemma uploaded_mesh_GenerateAsteroid:
  assumes "resolve_seeds E A g0 = (LayerSeeds, g1)"
    and "BuildBaseIcosphere (Subdivisions A) = Some (Vertices0, Triangles)"
    and "RandRange_float E (MinRadius A) (MaxRadius A) g1 = (R, g3)"
  shows "uploaded_mesh (GenerateAsteroid E A g0) =
     Some (map (\<lambda>V. vec_scale V R)
             (NormalizeVertices (fst (ApplyNoiseLayers E (NoiseLayers A) Vertices0 LayerSeeds
                (MaxDisplacementFraction A) g1))), Triangles)"
proof -
  have len: "length LayerSeeds = length (NoiseLayers A)"
    using resolve_seeds_length [of E A g0] assms(1) by simp
  have lv: "Subdivisions A \<le> 12" using assms(2) by (rule BuildBaseIcosphere_Some_level)
  from displaced_icosphere_Some [OF len lv, of E g1] assms(2)
  have d: "displaced_icosphere E A LayerSeeds g1 =
         Some (fst (ApplyNoiseLayers E (NoiseLayers A) Vertices0 LayerSeeds
                      (MaxDisplacementFraction A) g1), Triangles, g1)" by simp
  from GenerateAsteroid_Some [OF assms(1) assms(3) lv] d
  show ?thesis by (auto simp: uploaded_mesh_def)
qed

lemma length_NormalizeVertices: "length (NormalizeVertices Vs) = length Vs"
  by (simp add: NormalizeVertices_def)

lemma nth_NormalizeVertices: "i < length Vs \<Longrightarrow> NormalizeVertices Vs ! i = Normalize (Vs ! i)"
  by (simp add: NormalizeVertices_def)

lemma apply_layer_map:
  "\<exists>ox oy oz. apply_layer E Layer seed m Vs = map (displace_vertex E Layer ox oy oz m) Vs"
proof -
  obtain r1 s1 where 1: "StreamFRand E (StreamInit E seed) = (r1, s1)" by force
  obtain r2 s2 where 2: "StreamFRand E s1 = (r2, s2)" by force
  obtain r3 s3 where 3: "StreamFRand E s2 = (r3, s3)" by force
  show ?thesis by (simp add: apply_layer_def 1 2 3) blast
qed

lemma ApplyNoiseLayers_radial:
  assumes "\<forall>u\<in>set U. SizeSquared u = 1" and "0 \<le> m"
    and "real (length Layers) * m < 1 - 1 / 10 ^ 4"
  shows "list_all2 (radial (1 - real (length Layers) * m)) U
     (fst (ApplyNoiseLayers E Layers U LayerSeeds m g))"
proof (cases "length U = 0")
  case True
  then show ?thesis by (simp add: ApplyNoiseLayers_def)
next
  case False
  have lo: "1 / 10 ^ 4 < 1 - real (length Layers) * m" using assms(3) by linarith
  from apply_layers_loop_radial [OF assms(1) assms(2) lo list_all2_radial_refl] False
  show ?thesis by (simp add: ApplyNoiseLayers_def)
qed

lemma radial_SizeSquared:
  assumes "radial lo u v" and "SizeSquared u = 1" and "1 / 10 ^ 4 < lo"
  shows "SMALL_NUMBER < SizeSquared v"
proof -
  from assms(1) obtain c where v: "v = vec_scale u c" and c: "lo \<le> c"
    by (auto simp: radial_def)
  have "1 / 10 ^ 4 < c" using assms(3) c by linarith
  from tolerance_square [OF this] show ?thesis
    by (simp add: v SizeSquared_vec_scale assms(2))
qed

subsection \<open>The icosahedron and a concrete run\<close>

lemma golden_t_gt_one: "1 < golden_t"
proof -
  have "sqrt 1 < sqrt 5" by (simp del: real_sqrt_one)
  then show ?thesis by (simp add: golden_t_def)
qed

lemma icosahedron_SizeSquared:
  "v \<in> set icosahedron_vertices \<Longrightarrow> SizeSquared v = 1 + golden_t * golden_t"
  by (auto simp: icosahedron_vertices_def Let_def SizeSquared_def)

lemma icosahedron_normalized_unit:
  assumes "v \<in> set icosahedron_vertices"
  shows "SizeSquared (Normalize v) = 1"
proof -
  have "0 \<le> golden_t * golden_t" by simp
  then have "SMALL_NUMBER < SizeSquared v"
    using icosahedron_SizeSquared [OF assms] SMALL_NUMBER_less_one by linarith
  then show ?thesis by (rule SizeSquared_Normalize)
qed

lemma level0_vertices:
  "NormalizeVertices (NormalizeVertices icosahedron_vertices) = NormalizeVertices icosahedron_vertices"
  by (simp add: NormalizeVertices_def icosahedron_normalized_unit Normalize_unit)

lemma level0_unit: "\<forall>u\<in>set (NormalizeVertices icosahedron_vertices). SizeSquared u = 1"
  by (auto simp: NormalizeVertices_def icosahedron_normalized_unit)

lemma BuildBaseIcosphere_0:
  "BuildBaseIcosphere 0 = Some (NormalizeVertices icosahedron_vertices, faceIndices)"
  by (simp add: BuildBaseIcosphere_level0 level0_vertices)

lemma nth_level0_1: "NormalizeVertices icosahedron_vertices ! 1 = unit_vertex1"
  by (simp add: NormalizeVertices_def icosahedron_vertices_def Let_def unit_vertex1_def)

lemma Normalize_icosahedron_1: "Normalize (icosahedron_vertices ! Suc 0) = unit_vertex1"
  by (simp add: icosahedron_vertices_def Let_def unit_vertex1_def)

lemma unit_vertex1_unit: "SizeSquared unit_vertex1 = 1"
  unfolding unit_vertex1_def
  by (rule icosahedron_normalized_unit) (simp add: icosahedron_vertices_def Let_def)

lemma unit_vertex1_components:
  "X unit_vertex1 = 1 / sqrt (1 + golden_t * golden_t)
   \<and> Y unit_vertex1 = golden_t / sqrt (1 + golden_t * golden_t)
   \<and> Z unit_vertex1 = 0"
proof -
  have "0 \<le> golden_t * golden_t" by simp
  then have "SMALL_NUMBER < 1 + golden_t * golden_t"
    using SMALL_NUMBER_less_one by linarith
  then show ?thesis
    by (simp add: unit_vertex1_def Normalize_def Let_def SizeSquared_def vec_scale_def)
qed

lemma unit_vertex1_sum: "1 \<le> X unit_vertex1 + Y unit_vertex1 + Z unit_vertex1"
proof -
  let ?t = golden_t
  have t: "0 < ?t" using golden_t_gt_one by linarith
  have "1 + ?t * ?t \<le> (1 + ?t) * (1 + ?t)" using t by (simp add: algebra_simps)
  then have "sqrt (1 + ?t * ?t) \<le> sqrt ((1 + ?t) * (1 + ?t))" by (rule real_sqrt_le_mono)
  then have le: "sqrt (1 + ?t * ?t) \<le> 1 + ?t" using t by simp
  have pos: "0 < sqrt (1 + ?t * ?t)" using t by (simp add: add_pos_nonneg)
  have "1 \<le> (1 + ?t) / sqrt (1 + ?t * ?t)"
    using le pos by (simp add: field_simps)
  then show ?thesis
    by (simp add: unit_vertex1_components add_divide_distrib)
qed

text \<open>
  In the constant noise field \<open>- 1/2\<close>, a layer of intensity 4 pushes this vertex, at
  any length above the tolerance, inwards by the whole clamp bound.
\<close>

lemma demo_displacement_scaled:
  assumes "0 < m" and "m \<le> 1" and "1 / 10 ^ 4 < c" and "Intensity Layer = 4"
  shows "vertex_displacement demo_engine Layer ox oy oz m (vec_scale unit_vertex1 c) = - m"
proof -
  have "0 < c" using assms(3) by (simp add: less_trans [rotated])
  then have n: "Normalize (vec_scale unit_vertex1 c) = unit_vertex1"
    using Normalize_scaled_unit [OF unit_vertex1_unit _ tolerance_square [OF assms(3)]] by simp
  have "DotProduct (FVector (- 1) (- 1) (- 1)) unit_vertex1
      = - (X unit_vertex1 + Y unit_vertex1 + Z unit_vertex1)"
    by (simp add: DotProduct_def)
  with unit_vertex1_sum have "DotProduct (FVector (- 1) (- 1) (- 1)) unit_vertex1 \<le> - 1"
    by linarith
  with assms(1,2) have "Clamp (DotProduct (FVector (- 1) (- 1) (- 1)) unit_vertex1) (- m) m = - m"
    by (auto simp: Clamp_def)
  then show ?thesis
    by (simp add: vertex_displacement_def Let_def n assms(4))
      (simp add: demo_engine_def vec_scale_def)
qed

lemma demo_displace_vertex_scaled:
  assumes "0 < m" and "m \<le> 1" and "1 / 10 ^ 4 < c" and "Intensity Layer = 4"
  shows "displace_vertex demo_engine Layer ox oy oz m (vec_scale unit_vertex1 c)
     = vec_scale unit_vertex1 (c - m)"
proof -
  have "0 < c" using assms(3) by (simp add: less_trans [rotated])
  then have n: "Normalize (vec_scale unit_vertex1 c) = unit_vertex1"
    using Normalize_scaled_unit [OF unit_vertex1_unit _ tolerance_square [OF assms(3)]] by simp
  show ?thesis
    using vec_add_scale [of unit_vertex1 c "- m"]
    by (simp add: displace_vertex_def demo_displacement_scaled [OF assms] n)
qed


text \<open>The run of the demo actor with another clamp bound, at the second vertex.\<close>

lemma demo_run_vertex1:
  assumes "0 < m" and "m \<le> 1"
  shows "uploaded_vertex (GenerateAsteroid demo_engine (demo_actor\<lparr>MaxDisplacementFraction := m\<rparr>) 0) 1
     = Some (vec_scale (Normalize (vec_scale unit_vertex1 (1 - m))) 100)"
proof -
  let ?A = "demo_actor\<lparr>MaxDisplacementFraction := m\<rparr>"
  let ?L = "\<lparr>Scale = 1 / 10, Intensity = 4, Seed = 7\<rparr>"
  have s: "resolve_seeds demo_engine ?A 0 = ([7], 0)"
    by (simp add: resolve_seeds_def demo_actor_def demo_engine_def)
  have b: "BuildBaseIcosphere (Subdivisions ?A) = Some (NormalizeVertices icosahedron_vertices, faceIndices)"
    by (simp add: demo_actor_def BuildBaseIcosphere_0)
  have r: "RandRange_float demo_engine (MinRadius ?A) (MaxRadius ?A) 0 = (100, 1)"
    by (simp add: RandRange_float_def demo_actor_def demo_engine_def)
  have len: "length (NormalizeVertices icosahedron_vertices) = 12"
    by (simp add: NormalizeVertices_def length_icosahedron_vertices)
  from apply_layer_map [of demo_engine ?L 7 m "NormalizeVertices icosahedron_vertices"]
  obtain ox oy oz where a: "apply_layer demo_engine ?L 7 m (NormalizeVertices icosahedron_vertices)
      = map (displace_vertex demo_engine ?L ox oy oz m) (NormalizeVertices icosahedron_vertices)"
    by blast
  have "fst (ApplyNoiseLayers demo_engine (NoiseLayers ?A) (NormalizeVertices icosahedron_vertices)
           [7] (MaxDisplacementFraction ?A) 0)
      = map (displace_vertex demo_engine ?L ox oy oz m) (NormalizeVertices icosahedron_vertices)"
    using a by (simp add: ApplyNoiseLayers_def demo_actor_def len)
  with uploaded_mesh_GenerateAsteroid [OF s b r]
  have "uploaded_mesh (GenerateAsteroid demo_engine ?A 0) =
     Some (map (\<lambda>V. vec_scale V 100)
             (NormalizeVertices (map (displace_vertex demo_engine ?L ox oy oz m)
                (NormalizeVertices icosahedron_vertices))), faceIndices)" by simp
  moreover have first: "displace_vertex demo_engine ?L ox oy oz m unit_vertex1
      = vec_scale unit_vertex1 (1 - m)"
    using demo_displace_vertex_scaled [of m 1 ?L ox oy oz] assms by (simp add: vec_scale_one)
  ultimately show ?thesis
    using len
    by (simp add: uploaded_vertex_def length_NormalizeVertices nth_NormalizeVertices
        Normalize_icosahedron_1)
qed

text \<open>The run of the actor with two layers and the clamp bound 1/2, at the same vertex.\<close>

lemma collapse_run_vertex1:
  "uploaded_vertex (GenerateAsteroid demo_engine collapse_actor 0) 1 = Some (FVector 0 0 0)"
proof -
  let ?A = collapse_actor
  let ?L1 = "\<lparr>Scale = 1 / 10, Intensity = 4, Seed = 7\<rparr>"
  let ?L2 = "\<lparr>Scale = 1 / 2, Intensity = 4, Seed = 8\<rparr>"
  let ?U = "NormalizeVertices icosahedron_vertices"
  have s: "resolve_seeds demo_engine ?A 0 = ([7, 8], 0)"
    by (simp add: resolve_seeds_def collapse_actor_def demo_actor_def demo_engine_def)
  have b: "BuildBaseIcosphere (Subdivisions ?A) = Some (?U, faceIndices)"
    by (simp add: collapse_actor_def demo_actor_def BuildBaseIcosphere_0)
  have r: "RandRange_float demo_engine (MinRadius ?A) (MaxRadius ?A) 0 = (100, 1)"
    by (simp add: RandRange_float_def collapse_actor_def demo_actor_def demo_engine_def)
  have len: "length ?U = 12"
    by (simp add: length_NormalizeVertices length_icosahedron_vertices)
  from apply_layer_map [of demo_engine ?L1 7 "1 / 2" ?U]
  obtain ox oy oz where a1: "apply_layer demo_engine ?L1 7 (1 / 2) ?U
      = map (displace_vertex demo_engine ?L1 ox oy oz (1 / 2)) ?U" by blast
  from apply_layer_map [of demo_engine ?L2 8 "1 / 2" "apply_layer demo_engine ?L1 7 (1 / 2) ?U"]
  obtain ox' oy' oz' where a2: "apply_layer demo_engine ?L2 8 (1 / 2)
        (apply_layer demo_engine ?L1 7 (1 / 2) ?U)
      = map (displace_vertex demo_engine ?L2 ox' oy' oz' (1 / 2))
          (apply_layer demo_engine ?L1 7 (1 / 2) ?U)" by blast
  have first: "displace_vertex demo_engine ?L1 ox oy oz (1 / 2) unit_vertex1
      = vec_scale unit_vertex1 (1 / 2)"
    using demo_displace_vertex_scaled [of "1 / 2" 1 ?L1 ox oy oz] by (simp add: vec_scale_one)
  have second: "displace_vertex demo_engine ?L2 ox' oy' oz' (1 / 2) (vec_scale unit_vertex1 (1 / 2))
      = vec_scale unit_vertex1 0"
    using demo_displace_vertex_scaled [of "1 / 2" "1 / 2" ?L2 ox' oy' oz'] by simp
  have zero: "Normalize (vec_scale unit_vertex1 0) = FVector 0 0 0"
    by (simp add: vec_scale_def Normalize_def Let_def SizeSquared_def SMALL_NUMBER_def)
  have "fst (ApplyNoiseLayers demo_engine (NoiseLayers ?A) ?U [7, 8] (MaxDisplacementFraction ?A) 0)
      = map (displace_vertex demo_engine ?L2 ox' oy' oz' (1 / 2))
          (map (displace_vertex demo_engine ?L1 ox oy oz (1 / 2)) ?U)"
    using a1 a2 by (simp add: ApplyNoiseLayers_def collapse_actor_def demo_actor_def len)
  with uploaded_mesh_GenerateAsteroid [OF s b r]
  have "uploaded_mesh (GenerateAsteroid demo_engine ?A 0) =
     Some (map (\<lambda>V. vec_scale V 100)
             (NormalizeVertices (map (displace_vertex demo_engine ?L2 ox' oy' oz' (1 / 2))
                (map (displace_vertex demo_engine ?L1 ox oy oz (1 / 2)) ?U))), faceIndices)"
    by simp
  then show ?thesis
    using len length_icosahedron_vertices
    by (simp add: uploaded_vertex_def length_NormalizeVertices nth_NormalizeVertices
        Normalize_icosahedron_1 first second zero)
      (simp add: vec_scale_def)
qed

subsection \<open>Unit vertices of the icosphere\<close>

lemma DotProduct_commute: "DotProduct a b = DotProduct b a"
  by (simp add: DotProduct_def mult.commute)

lemma DotProduct_self: "DotProduct a a = SizeSquared a"
  by (simp add: DotProduct_def SizeSquared_def)

lemma DotProduct_vec_scale_left: "DotProduct (vec_scale a k) b = k * DotProduct a b"
  by (simp add: DotProduct_def vec_scale_def algebra_simps)

lemma DotProduct_vec_add_left: "DotProduct (vec_add a b) c = DotProduct a c + DotProduct b c"
  by (simp add: DotProduct_def vec_add_def algebra_simps)

lemma Normalize_positive_scale: "\<exists>k>0. Normalize v = vec_scale v k"
proof (cases "SMALL_NUMBER < SizeSquared v")
  case True
  then have "0 < SizeSquared v" using SMALL_NUMBER_pos by linarith
  then have "0 < 1 / sqrt (SizeSquared v)" by simp
  moreover have "Normalize v = vec_scale v (1 / sqrt (SizeSquared v))"
    using True by (simp add: Normalize_def Let_def)
  ultimately show ?thesis by blast
next
  case False
  then have "Normalize v = vec_scale v 1" by (simp add: Normalize_def Let_def vec_scale_one)
  then show ?thesis by (intro exI [of _ 1]) simp
qed

lemma DotProduct_Normalize_left: "0 < DotProduct (Normalize a) b \<longleftrightarrow> 0 < DotProduct a b"
proof -
  from Normalize_positive_scale [of a] obtain k where "0 < k" "Normalize a = vec_scale a k" by blast
  then show ?thesis by (simp add: DotProduct_vec_scale_left zero_less_mult_iff)
qed

lemma DotProduct_Normalize_right: "0 < DotProduct a (Normalize b) \<longleftrightarrow> 0 < DotProduct a b"
  using DotProduct_Normalize_left [of b a] by (simp add: DotProduct_commute)

lemma midpoint_acute_left:
  assumes "0 < DotProduct a c" and "0 < DotProduct b c"
  shows "0 < DotProduct (midpoint a b) c"
  using assms
  by (simp add: midpoint_def DotProduct_Normalize_left DotProduct_vec_scale_left
      DotProduct_vec_add_left)

lemma midpoint_acute_right:
  assumes "0 < DotProduct c a" and "0 < DotProduct c b"
  shows "0 < DotProduct c (midpoint a b)"
  using midpoint_acute_left [of a c b] assms by (simp add: DotProduct_commute)

lemma midpoint_unit:
  assumes "SizeSquared a = 1" and "SizeSquared b = 1" and "0 < DotProduct a b"
  shows "SizeSquared (midpoint a b) = 1"
proof -
  have "SizeSquared (vec_add a b) = SizeSquared a + SizeSquared b + 2 * DotProduct a b"
    by (simp add: SizeSquared_def vec_add_def DotProduct_def algebra_simps)
  then have "SizeSquared (vec_scale (vec_add a b) (1 / 2))
      = (SizeSquared a + SizeSquared b + 2 * DotProduct a b) / 4"
    by (simp add: SizeSquared_vec_scale)
  with assms have "1 / 2 < SizeSquared (vec_scale (vec_add a b) (1 / 2))" by simp
  moreover have "SMALL_NUMBER < 1 / 2" by (simp add: SMALL_NUMBER_def)
  ultimately have "SMALL_NUMBER < SizeSquared (vec_scale (vec_add a b) (1 / 2))" by linarith
  then show ?thesis unfolding midpoint_def by (rule SizeSquared_Normalize)
qed

lemma cache_sound_empty: "cache_sound Vs Map.empty"
  by (simp add: cache_sound_def)

lemma MakeKey_same_edge:
  assumes "IsValidIndex Vs a" "IsValidIndex Vs b" "IsValidIndex Vs c" "IsValidIndex Vs d"
    and "int (length Vs) \<le> INT32_MAX" and "MakeKey a b = MakeKey c d"
  shows "(a = c \<and> b = d) \<or> (a = d \<and> b = c)"
proof -
  have r: "0 \<le> a" "a < 2 ^ 32" "0 \<le> b" "b < 2 ^ 32" "0 \<le> c" "c < 2 ^ 32" "0 \<le> d" "d < 2 ^ 32"
    using assms(1-5) by (auto simp: IsValidIndex_def INT32_MAX_def)
  from MakeKey_inj [OF r assms(6)] show ?thesis
    by (auto simp: min_def max_def split: if_splits)
qed

lemma GetMiddlePoint_geometry:
  assumes u: "unit_vertices Vs" and cs: "cache_sound Vs C"
    and p1: "IsValidIndex Vs p1" and p2: "IsValidIndex Vs p2"
    and ac: "0 < DotProduct (Vs ! nat p1) (Vs ! nat p2)"
    and bound: "int (length Vs) < INT32_MAX"
  shows "\<exists>i ext C'. GetMiddlePoint p1 p2 Vs C = Some (i, Vs @ ext, C') \<and> length ext \<le> 1
     \<and> unit_vertices (Vs @ ext) \<and> cache_sound (Vs @ ext) C' \<and> IsValidIndex (Vs @ ext) i
     \<and> (Vs @ ext) ! nat i = midpoint (Vs ! nat p1) (Vs ! nat p2)"
proof (cases "C (MakeKey p1 p2)")
  case None
  let ?m = "midpoint (Vs ! nat p1) (Vs ! nat p2)"
  let ?n = "int (length Vs)"
  let ?C = "C(MakeKey p1 p2 \<mapsto> ?n)"
  have g: "GetMiddlePoint p1 p2 Vs C = Some (?n, Vs @ [?m], ?C)"
    using GetMiddlePoint_miss [of C p1 p2 Vs] None p1 p2 bound by (simp add: midpoint_def)
  have "SizeSquared (Vs ! nat p1) = 1" "SizeSquared (Vs ! nat p2) = 1"
    using u p1 p2 by (auto simp: unit_vertices_def IsValidIndex_def)
  then have "SizeSquared ?m = 1" using ac by (rule midpoint_unit)
  then have u': "unit_vertices (Vs @ [?m])" using u by (simp add: unit_vertices_def)
  have n: "IsValidIndex (Vs @ [?m]) ?n" "(Vs @ [?m]) ! nat ?n = ?m"
    by (simp_all add: IsValidIndex_def)
  have cs': "cache_sound (Vs @ [?m]) ?C"
    unfolding cache_sound_def
  proof (intro allI impI)
    fix k i assume ki: "?C k = Some i"
    show "\<exists>p q. IsValidIndex (Vs @ [?m]) p \<and> IsValidIndex (Vs @ [?m]) q \<and> k = MakeKey p q
        \<and> IsValidIndex (Vs @ [?m]) i
        \<and> (Vs @ [?m]) ! nat i = midpoint ((Vs @ [?m]) ! nat p) ((Vs @ [?m]) ! nat q)"
    proof (cases "k = MakeKey p1 p2")
      case True
      with ki have "i = ?n" by simp
      with True n p1 p2 show ?thesis
        by (intro exI [of _ p1] exI [of _ p2])
          (simp add: nth_append_valid IsValidIndex_append)
    next
      case False
      with ki have "C k = Some i" by simp
      with cs obtain p q where pq: "IsValidIndex Vs p" "IsValidIndex Vs q" "k = MakeKey p q"
        "IsValidIndex Vs i" "Vs ! nat i = midpoint (Vs ! nat p) (Vs ! nat q)"
        unfolding cache_sound_def by blast
      then show ?thesis
        by (intro exI [of _ p] exI [of _ q])
          (simp add: nth_append_valid IsValidIndex_append)
    qed
  qed
  from g u' cs' n show ?thesis
    by (intro exI [of _ ?n] exI [of _ "[?m]"] exI [of _ ?C]) simp
next
  case (Some i)
  with cs obtain p q where pq: "IsValidIndex Vs p" "IsValidIndex Vs q" "MakeKey p1 p2 = MakeKey p q"
    "IsValidIndex Vs i" "Vs ! nat i = midpoint (Vs ! nat p) (Vs ! nat q)"
    unfolding cache_sound_def by blast
  have "int (length Vs) \<le> INT32_MAX" using bound by simp
  from MakeKey_same_edge [OF p1 p2 pq(1) pq(2) this pq(3)]
  have "midpoint (Vs ! nat p) (Vs ! nat q) = midpoint (Vs ! nat p1) (Vs ! nat p2)"
    using midpoint_commute by auto
  with pq u cs GetMiddlePoint_hit [of C p1 p2 i Vs] Some show ?thesis
    by (intro exI [of _ i] exI [of _ "[]"] exI [of _ C]) simp
qed

lemma acute_triangles_more_vertices:
  "acute_triangles Vs T \<Longrightarrow> acute_triangles (Vs @ ext) T"
  by (induction Vs T rule: acute_triangles.induct)
    (simp_all add: nth_append_valid IsValidIndex_append)

lemma dvd3_Suc3: "(3 dvd Suc (Suc (Suc n))) = (3 dvd n)"
  by presburger

lemma not_dvd3: "\<not> 3 dvd Suc 0" "\<not> 3 dvd Suc (Suc 0)"
  by presburger+

lemma acute_triangles_append:
  "3 dvd length xs \<Longrightarrow>
   acute_triangles Vs (xs @ ys) = (acute_triangles Vs xs \<and> acute_triangles Vs ys)"
  by (induction Vs xs rule: acute_triangles.induct) (auto simp: dvd3_Suc3 not_dvd3)

lemma subdivide_loop_geometry:
  "unit_vertices Vs \<Longrightarrow> cache_sound Vs C \<Longrightarrow> acute_triangles Vs T \<Longrightarrow>
   acute_triangles Vs newT \<Longrightarrow> 3 dvd length newT \<Longrightarrow>
   int (length Vs) + int (length T) \<le> INT32_MAX \<Longrightarrow>
   \<exists>Vs' T'. subdivide_loop T Vs C newT = Some (Vs', T') \<and> unit_vertices Vs'
      \<and> acute_triangles Vs' T' \<and> length Vs' \<le> length Vs + length T"
proof (induction T Vs C newT rule: subdivide_loop.induct)
  case (1 v1 v2 v3 rest Vs C newT)
  let ?P1 = "Vs ! nat v1" and ?P2 = "Vs ! nat v2" and ?P3 = "Vs ! nat v3"
  from "1.prems"(3) have v: "IsValidIndex Vs v1" "IsValidIndex Vs v2" "IsValidIndex Vs v3"
    and d: "0 < DotProduct ?P1 ?P2" "0 < DotProduct ?P2 ?P3" "0 < DotProduct ?P3 ?P1"
    and rest: "acute_triangles Vs rest" by simp_all
  have self: "0 < DotProduct ?P1 ?P1" "0 < DotProduct ?P2 ?P2" "0 < DotProduct ?P3 ?P3"
    using "1.prems"(1) v by (auto simp: unit_vertices_def IsValidIndex_def DotProduct_self)
  have d': "0 < DotProduct ?P2 ?P1" "0 < DotProduct ?P3 ?P2" "0 < DotProduct ?P1 ?P3"
    using d by (simp_all add: DotProduct_commute)
  note pos = d d' self
  have b0: "int (length Vs) < INT32_MAX" using "1.prems"(6) by simp
  from GetMiddlePoint_geometry [OF "1.prems"(1) "1.prems"(2) v(1) v(2) d(1) b0]
  obtain a ext1 C1 where a: "GetMiddlePoint v1 v2 Vs C = Some (a, Vs @ ext1, C1)"
    "length ext1 \<le> 1" "unit_vertices (Vs @ ext1)" "cache_sound (Vs @ ext1) C1"
    "IsValidIndex (Vs @ ext1) a" "(Vs @ ext1) ! nat a = midpoint ?P1 ?P2" by blast
  let ?Vs1 = "Vs @ ext1"
  have v1: "IsValidIndex ?Vs1 v1" "IsValidIndex ?Vs1 v2" "IsValidIndex ?Vs1 v3"
    using v by (simp_all add: IsValidIndex_append)
  have n1: "?Vs1 ! nat v1 = ?P1" "?Vs1 ! nat v2 = ?P2" "?Vs1 ! nat v3 = ?P3"
    using v by (simp_all add: nth_append_valid)
  have b1: "int (length ?Vs1) < INT32_MAX" using "1.prems"(6) a(2) by simp
  have d1: "0 < DotProduct (?Vs1 ! nat v2) (?Vs1 ! nat v3)" using d(2) n1 by simp
  from GetMiddlePoint_geometry [OF a(3) a(4) v1(2) v1(3) d1 b1]
  obtain b ext2 C2 where b: "GetMiddlePoint v2 v3 ?Vs1 C1 = Some (b, ?Vs1 @ ext2, C2)"
    "length ext2 \<le> 1" "unit_vertices (?Vs1 @ ext2)" "cache_sound (?Vs1 @ ext2) C2"
    "IsValidIndex (?Vs1 @ ext2) b" "(?Vs1 @ ext2) ! nat b = midpoint ?P2 ?P3"
    unfolding n1 by blast
  let ?Vs2 = "?Vs1 @ ext2"
  have v2: "IsValidIndex ?Vs2 v1" "IsValidIndex ?Vs2 v2" "IsValidIndex ?Vs2 v3" "IsValidIndex ?Vs2 a"
    using v1 a(5) by (simp_all only: IsValidIndex_append)
  have n2: "?Vs2 ! nat v1 = ?P1" "?Vs2 ! nat v2 = ?P2" "?Vs2 ! nat v3 = ?P3"
    "?Vs2 ! nat a = midpoint ?P1 ?P2"
    using nth_append_valid [OF v1(1), of ext2] nth_append_valid [OF v1(2), of ext2]
      nth_append_valid [OF v1(3), of ext2] nth_append_valid [OF a(5), of ext2] n1 a(6)
    by simp_all
  have b2: "int (length ?Vs2) < INT32_MAX" using "1.prems"(6) a(2) b(2) by simp
  have d2: "0 < DotProduct (?Vs2 ! nat v3) (?Vs2 ! nat v1)" using d(3) n2 by simp
  from GetMiddlePoint_geometry [OF b(3) b(4) v2(3) v2(1) d2 b2]
  obtain c ext3 C3 where c: "GetMiddlePoint v3 v1 ?Vs2 C2 = Some (c, ?Vs2 @ ext3, C3)"
    "length ext3 \<le> 1" "unit_vertices (?Vs2 @ ext3)" "cache_sound (?Vs2 @ ext3) C3"
    "IsValidIndex (?Vs2 @ ext3) c" "(?Vs2 @ ext3) ! nat c = midpoint ?P3 ?P1"
    unfolding n2 by blast
  let ?Vs3 = "?Vs2 @ ext3"
  let ?new = "[v1, a, c, v2, b, a, v3, c, b, a, b, c]"
  have v3: "IsValidIndex ?Vs3 v1" "IsValidIndex ?Vs3 v2" "IsValidIndex ?Vs3 v3"
    "IsValidIndex ?Vs3 a" "IsValidIndex ?Vs3 b"
    using v2 b(5) by (simp_all only: IsValidIndex_append)
  have n3: "?Vs3 ! nat v1 = ?P1" "?Vs3 ! nat v2 = ?P2" "?Vs3 ! nat v3 = ?P3"
    "?Vs3 ! nat a = midpoint ?P1 ?P2" "?Vs3 ! nat b = midpoint ?P2 ?P3"
    using nth_append_valid [OF v2(1), of ext3] nth_append_valid [OF v2(2), of ext3]
      nth_append_valid [OF v2(3), of ext3] nth_append_valid [OF v2(4), of ext3]
      nth_append_valid [OF b(5), of ext3] n2 b(6)
    by simp_all
  have new: "acute_triangles ?Vs3 ?new"
    using v3 c(5)
    by (simp only: acute_triangles.simps n3 c(6))
      (simp add: midpoint_acute_left midpoint_acute_right pos)
  have e: "?Vs3 = Vs @ (ext1 @ ext2 @ ext3)" by simp
  have rest3: "acute_triangles ?Vs3 rest"
    unfolding e by (rule acute_triangles_more_vertices [OF rest])
  have newT3: "acute_triangles ?Vs3 (newT @ ?new)"
    unfolding acute_triangles_append [OF "1.prems"(5)]
    using new acute_triangles_more_vertices [OF "1.prems"(4), of "ext1 @ ext2 @ ext3"]
    unfolding e by simp
  have dvd: "3 dvd length (newT @ ?new)" using "1.prems"(5) by (simp add: dvd3_Suc3)
  have b3: "int (length ?Vs3) + int (length rest) \<le> INT32_MAX"
    using "1.prems"(6) a(2) b(2) c(2) by simp
  from "1.IH" [OF a(1) refl refl b(1) refl refl c(1) refl refl c(3) c(4) rest3 newT3 dvd b3]
  obtain Vs' T' where r: "subdivide_loop rest ?Vs3 C3 (newT @ ?new) = Some (Vs', T')"
    "unit_vertices Vs'" "acute_triangles Vs' T'" "length Vs' \<le> length ?Vs3 + length rest"
    by blast
  have "length Vs' \<le> length Vs + length (v1 # v2 # v3 # rest)"
    using r(4) a(2) b(2) c(2) by simp
  with a(1) b(1) c(1) r show ?case by simp
qed simp_all

lemma acute_triangles_valid: "acute_triangles Vs T \<Longrightarrow> 3 dvd length T \<Longrightarrow> list_all (IsValidIndex Vs) T"
  by (induction Vs T rule: acute_triangles.induct) (auto simp: dvd3_Suc3 not_dvd3)

lemma SubdivideIcosphere_geometry:
  assumes "unit_vertices Vs" and "acute_triangles Vs T" and "3 dvd length T"
    and "length Vs \<le> length T" and "int (length T) * 4 \<le> INT32_MAX"
  shows "\<exists>Vs' T'. SubdivideIcosphere Vs T = Some (Vs', T') \<and> unit_vertices Vs'
     \<and> acute_triangles Vs' T' \<and> length Vs' \<le> length T' \<and> length T' = 4 * length T"
proof -
  have bound: "int (length Vs) + int (length T) \<le> INT32_MAX" using assms(4,5) by simp
  from subdivide_loop_geometry [OF assms(1) cache_sound_empty assms(2) _ _ bound, of "[]"]
  obtain Vs' T' where r: "subdivide_loop T Vs Map.empty [] = Some (Vs', T')" "unit_vertices Vs'"
    "acute_triangles Vs' T'" "length Vs' \<le> length Vs + length T" by auto
  have s: "SubdivideIcosphere Vs T = Some (Vs', T')"
    using r(1) assms(5) by (simp add: SubdivideIcosphere_def)
  from SubdivideIcosphere_length [OF s assms(3)] have l: "length T' = 4 * length T" .
  with r assms(4) have "length Vs' \<le> length T'" by simp
  with r s l show ?thesis by simp
qed

lemma subdivide_times_geometry:
  "unit_vertices Vs \<Longrightarrow> acute_triangles Vs T \<Longrightarrow> 3 dvd length T \<Longrightarrow>
   length Vs \<le> length T \<Longrightarrow> int (length T) * 4 ^ n \<le> INT32_MAX \<Longrightarrow>
   \<exists>Vs' T'. subdivide_times n Vs T = Some (Vs', T') \<and> unit_vertices Vs'"
proof (induction n arbitrary: Vs T)
  case 0
  then show ?case by simp
next
  case (Suc n)
  have "int (length T) * 4 \<le> int (length T) * 4 ^ Suc n"
    by (intro mult_left_mono) simp_all
  with Suc.prems(5) have bound: "int (length T) * 4 \<le> INT32_MAX" by linarith
  from SubdivideIcosphere_geometry [OF Suc.prems(1-4) bound]
  obtain Vs1 T1 where s: "SubdivideIcosphere Vs T = Some (Vs1, T1)" "unit_vertices Vs1"
    "acute_triangles Vs1 T1" "length Vs1 \<le> length T1" "length T1 = 4 * length T"
    by blast
  have dvd: "3 dvd length T1" using s(5) Suc.prems(3) by simp
  have b: "int (length T1) * 4 ^ n \<le> INT32_MAX" using Suc.prems(5) s(5) by (simp add: mult.assoc)
  from Suc.IH [OF s(2) s(3) dvd s(4) b] s(1) show ?case by simp
qed

lemma golden_t_square: "1 < golden_t * golden_t"
  using golden_t_gt_one mult_strict_mono [of 1 golden_t 1 golden_t] by simp

lemma DotProduct_Normalize_both:
  "0 < DotProduct (Normalize a) (Normalize b) \<longleftrightarrow> 0 < DotProduct a b"
  by (simp add: DotProduct_Normalize_left DotProduct_Normalize_right)

lemma icosahedron_acute: "acute_triangles (NormalizeVertices icosahedron_vertices) faceIndices"
proof -
  have t: "0 < golden_t"
    using golden_t_gt_one by simp
  have len: "length icosahedron_vertices = 12" by (rule length_icosahedron_vertices)
  show ?thesis
    unfolding faceIndices_def
    by (simp add: IsValidIndex_def length_NormalizeVertices nth_NormalizeVertices len
        DotProduct_Normalize_both)
      (simp add: icosahedron_vertices_def Let_def DotProduct_def t golden_t_square)
qed

text \<open>
  At every level that can be built, every vertex that \<^verbatim>\<open>BuildBaseIcosphere\<close> returns is
  a unit vector: the end points of every edge that is split enclose an acute angle, so
  no midpoint is too short to normalize. The last \<^verbatim>\<open>NormalizeVertices\<close> changes nothing.
\<close>

lemma subdivide_times_snoc:
  "subdivide_times (Suc n) Vs T =
     (case subdivide_times n Vs T of
        None \<Rightarrow> None
      | Some (Vs', T') \<Rightarrow> SubdivideIcosphere Vs' T')"
proof (induction n arbitrary: Vs T)
  case 0
  show ?case by (simp split: option.splits)
next
  case (Suc n)
  show ?case
  proof (cases "SubdivideIcosphere Vs T")
    case None
    then show ?thesis by simp
  next
    case (Some r)
    obtain Vs1 T1 where r: "r = (Vs1, T1)" by force
    have "subdivide_times (Suc (Suc n)) Vs T = subdivide_times (Suc n) Vs1 T1"
      using Some r by simp
    also have "\<dots> = (case subdivide_times n Vs1 T1 of
        None \<Rightarrow> None | Some (Vs', T') \<Rightarrow> SubdivideIcosphere Vs' T')"
      by (rule Suc.IH)
    also have "subdivide_times n Vs1 T1 = subdivide_times (Suc n) Vs T"
      using Some r by simp
    finally show ?thesis .
  qed
qed

lemma BuildBaseIcosphere_subdivide_times:
  assumes "L \<le> 12"
  shows "\<exists>Vertices Triangles.
       subdivide_times (nat L) (NormalizeVertices icosahedron_vertices) faceIndices
         = Some (Vertices, Triangles)
     \<and> BuildBaseIcosphere L = Some (Vertices, Triangles) \<and> unit_vertices Vertices"
proof -
  let ?U = "NormalizeVertices icosahedron_vertices"
  have le: "length ?U \<le> length faceIndices"
    by (simp add: length_NormalizeVertices length_icosahedron_vertices length_faceIndices)
  from subdivide_times_geometry [OF _ icosahedron_acute _ le level_bound [OF assms]] level0_unit
  obtain Vs' T' where r: "subdivide_times (nat L) ?U faceIndices = Some (Vs', T')" "unit_vertices Vs'"
    by (auto simp: unit_vertices_def length_faceIndices)
  from r(2) have "NormalizeVertices Vs' = Vs'"
    by (simp add: NormalizeVertices_def unit_vertices_def Normalize_unit map_idI)
  with r show ?thesis
    by (simp add: BuildBaseIcosphere_def)
qed

lemma BuildBaseIcosphere_unit:
  assumes "BuildBaseIcosphere L = Some (Vertices, Triangles)"
  shows "\<forall>v\<in>set Vertices. SizeSquared v = 1"
  using BuildBaseIcosphere_subdivide_times [OF BuildBaseIcosphere_Some_level [OF assms]] assms
  by (auto simp: unit_vertices_def)

subsection \<open>The levels of the icosphere\<close>

lemma length_triangles_of: "3 dvd length T \<Longrightarrow> 3 * length (triangles_of T) = length T"
  by (induction T rule: triangles_of.induct) (auto simp: dvd3_Suc3 not_dvd3)

lemma length_edges_of: "length (edges_of ts) = 3 * length ts"
  by (induction ts rule: edges_of.induct) simp_all

lemma edges_of_valid:
  "list_all (IsValidIndex Vs) T \<Longrightarrow>
   list_all (\<lambda>e. IsValidIndex Vs (fst e) \<and> IsValidIndex Vs (snd e)) (edges_of (triangles_of T))"
  by (induction T rule: triangles_of.induct) simp_all

text \<open>
  Claim C4, as the code has it: the pass to level 13 starts from \<open>60 * 4 ^ 12\<close> entries,
  four times that number is above \<^verbatim>\<open>INT32_MAX\<close>, and no triangle list is returned.
\<close>

theorem BuildBaseIcosphere_level_13: "BuildBaseIcosphere 13 = None"
  by (rule BuildBaseIcosphere_overflow) simp

text \<open>
  Claim C4, for the levels that can be built. Up to level 12, \<^verbatim>\<open>BuildBaseIcosphere\<close>
  returns, its triangle list has \<open>3 * 20 * 4 ^ level\<close> entries, all of them indices of
  the vertex buffer, and at level 0 the result is the icosahedron itself, normalized, with
  12 vertices and 20 triangles. The next level is one pass over this one: the midpoints
  of the three edges of every triangle are requested in turn on one cache, every index
  returned is that of the normalized mean of the edge's end points, the old vertices
  stay where they are, and the new triangle list is, for every triangle
  \<open>(v1, v2, v3)\<close> with midpoints \<open>a\<close>, \<open>b\<close>, \<open>c\<close>, the four children \<open>(v1, a, c)\<close>,
  \<open>(v2, b, a)\<close>, \<open>(v3, c, b)\<close>, \<open>(a, b, c)\<close>: four times as many entries.
\<close>

theorem BuildBaseIcosphere_triangle_count:
  assumes "L \<le> 12"
  shows "\<exists>Vertices Triangles.
       BuildBaseIcosphere L = Some (Vertices, Triangles)
     \<and> length Triangles = 3 * 20 * 4 ^ nat L
     \<and> length (triangles_of Triangles) = 20 * 4 ^ nat L
     \<and> list_all (IsValidIndex Vertices) Triangles
     \<and> (L \<le> 0 \<longrightarrow> length Vertices = 12 \<and> length Triangles = 3 * 20
           \<and> Vertices = NormalizeVertices (NormalizeVertices icosahedron_vertices)
           \<and> Triangles = faceIndices)
     \<and> (0 \<le> L \<and> L < 12 \<longrightarrow>
          (\<exists>mids Vertices' cache.
              request_midpoints (edges_of (triangles_of Triangles)) Vertices Map.empty
                = Some (mids, Vertices', cache)
            \<and> BuildBaseIcosphere (L + 1)
                = Some (Vertices', children_of (triangles_of Triangles) mids)
            \<and> length (children_of (triangles_of Triangles) mids) = 4 * length Triangles
            \<and> length mids = length Triangles
            \<and> take (length Vertices) Vertices' = Vertices
            \<and> (\<forall>j<length mids.
                  IsValidIndex Vertices' (mids ! j)
                \<and> Vertices' ! nat (mids ! j) =
                    Normalize (vec_scale
                      (vec_add (Vertices ! nat (fst (edges_of (triangles_of Triangles) ! j)))
                               (Vertices ! nat (snd (edges_of (triangles_of Triangles) ! j))))
                      (1 / 2)))))"
proof -
  from BuildBaseIcosphere_Some [OF assms]
  obtain Vs T where b: "BuildBaseIcosphere L = Some (Vs, T)" "length T = 60 * 4 ^ nat L"
    "list_all (IsValidIndex Vs) T" "length Vs \<le> length T" by blast
  have dvd: "3 dvd length T" using b(2) by simp
  have tri: "length (triangles_of T) = 20 * 4 ^ nat L"
    using length_triangles_of [OF dvd] b(2) by simp
  have zero: "length Vs = 12 \<and> length T = 3 * 20
      \<and> Vs = NormalizeVertices (NormalizeVertices icosahedron_vertices) \<and> T = faceIndices"
    if "L \<le> 0"
    using BuildBaseIcosphere_level0 [OF that] b(1)
    by (auto simp: NormalizeVertices_def length_faceIndices length_icosahedron_vertices)
  have pass: "\<exists>mids Vertices' cache.
              request_midpoints (edges_of (triangles_of T)) Vs Map.empty
                = Some (mids, Vertices', cache)
            \<and> BuildBaseIcosphere (L + 1) = Some (Vertices', children_of (triangles_of T) mids)
            \<and> length (children_of (triangles_of T) mids) = 4 * length T
            \<and> length mids = length T
            \<and> take (length Vs) Vertices' = Vs
            \<and> (\<forall>j<length mids.
                  IsValidIndex Vertices' (mids ! j)
                \<and> Vertices' ! nat (mids ! j) =
                    Normalize (vec_scale
                      (vec_add (Vs ! nat (fst (edges_of (triangles_of T) ! j)))
                               (Vs ! nat (snd (edges_of (triangles_of T) ! j))))
                      (1 / 2)))"
    if l: "0 \<le> L" "L < 12"
  proof -
    let ?U = "NormalizeVertices icosahedron_vertices"
    let ?E = "edges_of (triangles_of T)"
    from BuildBaseIcosphere_subdivide_times [OF assms] b(1)
    have s0: "subdivide_times (nat L) ?U faceIndices = Some (Vs, T)" by auto
    have l1: "L + 1 \<le> 12" using l(2) by simp
    from BuildBaseIcosphere_subdivide_times [OF l1]
    obtain Vs1 T1 where s1: "subdivide_times (nat (L + 1)) ?U faceIndices = Some (Vs1, T1)"
      "BuildBaseIcosphere (L + 1) = Some (Vs1, T1)" by blast
    from BuildBaseIcosphere_Some [OF l1] s1(2)
    have len1: "length T1 = 60 * 4 ^ nat (L + 1)" by auto
    have n: "nat (L + 1) = Suc (nat L)" using l(1) by simp
    have sub: "SubdivideIcosphere Vs T = Some (Vs1, T1)"
      using s1(1) s0 unfolding n subdivide_times_snoc by simp
    then obtain mids C where rq: "request_midpoints ?E Vs Map.empty = Some (mids, Vs1, C)"
      and ch: "T1 = children_of (triangles_of T) mids"
      unfolding SubdivideIcosphere_requests by (auto split: if_splits option.splits)
    have four: "length T1 = 4 * length T" using len1 b(2) n by simp
    have le: "length ?E = length T"
      using length_edges_of [of "triangles_of T"] length_triangles_of [OF dvd] by simp
    have "int (length T) * 4 \<le> INT32_MAX"
      using sub by (auto simp: SubdivideIcosphere_def split: if_splits)
    then have bound: "int (length Vs) + int (length ?E) \<le> INT32_MAX"
      using b(4) le by simp
    from request_midpoints_pass_inv [OF pass_inv_empty edges_of_valid [OF b(3)] bound] rq
    have lm: "length mids = length ?E" and inv: "pass_inv Vs ?E Vs1 C"
      and ret: "\<forall>j<length ?E. C (edge_key (?E ! j)) = Some (mids ! j)" by auto
    from inv have tk: "take (length Vs) Vs1 = Vs"
      and old: "\<And>e. e \<in> set ?E \<Longrightarrow>
            (\<exists>i. C (edge_key e) = Some i \<and> int (length Vs) \<le> i \<and> IsValidIndex Vs1 i
                  \<and> Vs1 ! nat i = midpoint (Vs ! nat (fst e)) (Vs ! nat (snd e)))"
      unfolding pass_inv_def by blast+
    have each: "IsValidIndex Vs1 (mids ! j)
        \<and> Vs1 ! nat (mids ! j) =
            Normalize (vec_scale (vec_add (Vs ! nat (fst (?E ! j))) (Vs ! nat (snd (?E ! j))))
              (1 / 2))" if "j < length mids" for j
    proof -
      from that lm have j: "j < length ?E" by simp
      then have m: "?E ! j \<in> set ?E" by simp
      from ret j have "C (edge_key (?E ! j)) = Some (mids ! j)" by simp
      with old [OF m] show ?thesis by (auto simp: midpoint_def)
    qed
    show ?thesis
      using rq s1(2) ch four lm le tk each by auto
  qed
  show ?thesis
    using b(1,2,3) tri zero pass by auto
qed

theorem BuildBaseIcosphere_triangle_count_witness:
  "(0::int) \<le> 12 \<and> (0::int) \<le> 0 \<and> (0::int) < 12
   \<and> map_option (\<lambda>r. length (snd r)) (BuildBaseIcosphere 0) = Some 60
   \<and> map_option (\<lambda>r. length (fst r)) (BuildBaseIcosphere 0) = Some 12
   \<and> map_option (\<lambda>r. length (snd r)) (BuildBaseIcosphere (0 + 1)) = Some 240"
  using BuildBaseIcosphere_triangle_count [of 0]
  by auto


subsection \<open>The geometry handed over\<close>

lemma Size_unit_scaled: "SizeSquared u = 1 \<Longrightarrow> Size (vec_scale u R) = \<bar>R\<bar>"
  by (simp add: Size_vec_scale) (simp add: Size_def)

lemma displace_vertex_scale:
  assumes "SMALL_NUMBER < SizeSquared V"
  shows "displace_vertex E Layer ox oy oz m V
     = vec_scale V (1 + vertex_displacement E Layer ox oy oz m V / Size V)"
proof -
  have n: "Normalize V = vec_scale V (1 / Size V)"
    using assms by (simp add: Normalize_def Let_def Size_def)
  have "vec_add V (vec_scale (vec_scale V k) d) = vec_scale V (1 + d * k)" for k d
    by (simp add: vec_add_def vec_scale_def algebra_simps)
  then show ?thesis
    by (simp add: displace_vertex_def n)
qed

text \<open>
  Claim C6, evaluated. The collapse actor has the default clamp bound 1/2 and two layers.
  Each layer moves the second vertex of the icosahedron inwards by 1/2, so the vertex
  ends in the origin. \<^verbatim>\<open>Normalize\<close> leaves a vector of squared length at most
  \<^verbatim>\<open>SMALL_NUMBER\<close> as it is, so the vertex is handed over at the origin, at distance 0,
  while the chosen radius is 100.
\<close>

theorem GenerateAsteroid_collapsed_vertex:
  "uploaded_vertex (GenerateAsteroid demo_engine collapse_actor 0) 1 = Some (FVector 0 0 0)
   \<and> map_option Radius (generated_stats (GenerateAsteroid demo_engine collapse_actor 0)) = Some 100
   \<and> Size (FVector 0 0 0) = 0"
proof -
  have g: "0 \<le> GlobalSeed collapse_actor" "Subdivisions collapse_actor \<le> 12"
    by (simp_all add: collapse_actor_def demo_actor_def)
  have r: "map_option Radius (generated_stats (GenerateAsteroid demo_engine collapse_actor 0)) = Some 100"
    using GenerateAsteroid_radius [OF g, of demo_engine 0]
    by (simp add: collapse_actor_def demo_actor_def)
  have "Size (FVector 0 0 0) = 0"
    by (simp add: Size_def SizeSquared_def)
  with collapse_run_vertex1 r show ?thesis by simp
qed

text \<open>
  What does hold of every run: the noise layers are applied, every vertex is normalized
  and then scaled by the chosen radius; the result goes to the mesh section and to the
  convex collision mesh. Every vertex whose displaced position has a squared length
  above \<^verbatim>\<open>SMALL_NUMBER\<close> ends at a distance from the origin that is the absolute value
  of the chosen radius, whatever its length was after the displacement.
\<close>

lemma GenerateAsteroid_vertices_at_radius:
  assumes "resolve_seeds E A g0 = (LayerSeeds, g1)"
    and "displaced_icosphere E A LayerSeeds g1 = Some (Vertices1, Triangles, g2)"
    and "RandRange_float E (MinRadius A) (MaxRadius A) g2 = (ChosenRadius, g3)"
  shows "\<exists>A' calls. GenerateAsteroid E A g0 = Some (A', calls, g3)
     \<and> Radius (AsteroidStats A') = ChosenRadius
     \<and> hd calls = CreateMeshSection 0
          (map (\<lambda>V. vec_scale V ChosenRadius) (NormalizeVertices Vertices1)) Triangles False
     \<and> AddCollisionConvexMesh
          (map (\<lambda>V. vec_scale V ChosenRadius) (NormalizeVertices Vertices1)) \<in> set calls
     \<and> (\<forall>i < length Vertices1. SMALL_NUMBER < SizeSquared (Vertices1 ! i) \<longrightarrow>
          map_option Size (uploaded_vertex (GenerateAsteroid E A g0) i) = Some \<bar>ChosenRadius\<bar>)"
proof -
  have len: "length LayerSeeds = length (NoiseLayers A)"
    using resolve_seeds_length [of E A g0] assms(1) by simp
  have "\<exists>r. BuildBaseIcosphere (Subdivisions A) = Some r"
    using assms(2) by (cases "BuildBaseIcosphere (Subdivisions A)") (simp_all add: displaced_icosphere_def)
  then have lv: "Subdivisions A \<le> 12" using BuildBaseIcosphere_Some_level by blast
  from displaced_icosphere_Some [OF len lv, of E g1] assms(2)
  have g2: "g2 = g1" by auto
  from GenerateAsteroid_Some [OF assms(1) assms(3) [unfolded g2] lv] assms(2)
  obtain A2 where
    a2: "A2 = (CalculateStats A ChosenRadius)
            \<lparr>AsteroidStats := (AsteroidStats (CalculateStats A ChosenRadius))
               \<lparr>NoiseLayerSeeds := LayerSeeds\<rparr>\<rparr>"
    and g: "GenerateAsteroid E A g0 =
       Some (A2,
         [CreateMeshSection 0 (map (\<lambda>V. vec_scale V ChosenRadius) (NormalizeVertices Vertices1))
            Triangles False,
          ClearCollisionConvexMeshes,
          AddCollisionConvexMesh (map (\<lambda>V. vec_scale V ChosenRadius) (NormalizeVertices Vertices1)),
          SetCollisionEnabled] @
         (if bEnablePhysics A
          then [SetSimulatePhysics True, SetMassOverrideInKg (Mass (AsteroidStats A2)) True]
          else []) @
         [Broadcast (AsteroidStats A2),
          UE_LOG (Radius (AsteroidStats A2)) (Volume (AsteroidStats A2)) (Mass (AsteroidStats A2))],
         g3)" by auto
  have rad: "Radius (AsteroidStats A2) = ChosenRadius"
    by (simp add: a2 AsteroidStats_CalculateStats)
  have up: "uploaded_mesh (GenerateAsteroid E A g0) =
      Some (map (\<lambda>V. vec_scale V ChosenRadius) (NormalizeVertices Vertices1), Triangles)"
    by (simp add: g uploaded_mesh_def)
  have "map_option Size (uploaded_vertex (GenerateAsteroid E A g0) i) = Some \<bar>ChosenRadius\<bar>"
    if "i < length Vertices1" and "SMALL_NUMBER < SizeSquared (Vertices1 ! i)" for i
    using that
    by (simp add: uploaded_vertex_def up length_NormalizeVertices nth_NormalizeVertices
        Size_unit_scaled SizeSquared_Normalize)
  with g rad show ?thesis by simp
qed

lemma GenerateAsteroid_vertices_at_radius_demo:
  "resolve_seeds demo_engine demo_actor 0 = ([7], 0)
   \<and> RandRange_float demo_engine (MinRadius demo_actor) (MaxRadius demo_actor) 0 = (100, 1)
   \<and> (\<exists>Vertices1 Triangles.
         displaced_icosphere demo_engine demo_actor [7] 0 = Some (Vertices1, Triangles, 0)
       \<and> 1 < length Vertices1 \<and> SMALL_NUMBER < SizeSquared (Vertices1 ! 1))
   \<and> map_option Size (uploaded_vertex (GenerateAsteroid demo_engine demo_actor 0) 1) = Some 100"
proof -
  let ?U = "NormalizeVertices icosahedron_vertices"
  let ?V1 = "fst (ApplyNoiseLayers demo_engine (NoiseLayers demo_actor) ?U [7]
                      (MaxDisplacementFraction demo_actor) 0)"
  have s: "resolve_seeds demo_engine demo_actor 0 = ([7], 0)"
    by (simp add: resolve_seeds_def demo_actor_def demo_engine_def)
  have r: "RandRange_float demo_engine (MinRadius demo_actor) (MaxRadius demo_actor) 0 = (100, 1)"
    by (simp add: RandRange_float_def demo_actor_def demo_engine_def)
  have b: "BuildBaseIcosphere (Subdivisions demo_actor) = Some (?U, faceIndices)"
    by (simp add: demo_actor_def BuildBaseIcosphere_0)
  have len: "length [7::int] = length (NoiseLayers demo_actor)"
    by (simp add: demo_actor_def)
  have lv: "Subdivisions demo_actor \<le> 12" by (simp add: demo_actor_def)
  from displaced_icosphere_Some [OF len lv, of demo_engine 0] b
  have d: "displaced_icosphere demo_engine demo_actor [7] 0 = Some (?V1, faceIndices, 0)"
    by simp
  have m: "0 \<le> MaxDisplacementFraction demo_actor"
    "real (length (NoiseLayers demo_actor)) * MaxDisplacementFraction demo_actor < 1 - 1 / 10 ^ 4"
    by (simp_all add: demo_actor_def)
  have rad: "list_all2 (radial (1 - real (length (NoiseLayers demo_actor))
                * MaxDisplacementFraction demo_actor)) ?U ?V1"
    by (rule ApplyNoiseLayers_radial [OF level0_unit m])
  have l: "length ?V1 = 12"
    using list_all2_lengthD [OF rad] by (simp add: length_NormalizeVertices length_icosahedron_vertices)
  have "radial (1 - real (length (NoiseLayers demo_actor)) * MaxDisplacementFraction demo_actor)
          (?U ! 1) (?V1 ! 1)"
    using list_all2_nthD2 [OF rad, of 1] l by simp
  from radial_SizeSquared [OF this] level0_unit m(2)
  have big: "SMALL_NUMBER < SizeSquared (?V1 ! 1)"
    by (simp add: length_NormalizeVertices length_icosahedron_vertices)
  from GenerateAsteroid_vertices_at_radius [OF s d r] l big
  have "map_option Size (uploaded_vertex (GenerateAsteroid demo_engine demo_actor 0) 1) = Some 100"
    by auto
  with s r d l big show ?thesis by auto
qed

text \<open>With unit base vertices and small clamp bounds, the uploaded mesh is the base sphere scaled.\<close>

lemma uploaded_mesh_sphere:
  assumes "0 \<le> MaxDisplacementFraction A"
    and "real (length (NoiseLayers A)) * MaxDisplacementFraction A < 1 - 1 / 10 ^ 4"
    and "BuildBaseIcosphere (Subdivisions A) = Some (Vertices0, Triangles)"
    and "\<forall>u\<in>set Vertices0. SizeSquared u = 1"
  shows "uploaded_mesh (GenerateAsteroid E A g0) =
     Some (map (\<lambda>V. vec_scale V
                  (fst (RandRange_float E (MinRadius A) (MaxRadius A) (snd (resolve_seeds E A g0)))))
             Vertices0, Triangles)"
  using uploaded_mesh_GenerateAsteroid [OF surjective_pairing assms(3) surjective_pairing, of E g0]
  by (simp add: NormalizeVertices_ApplyNoiseLayers [OF assms(4) assms(1) assms(2)])

lemma uploaded_mesh_sphere_levels:
  assumes "0 \<le> MaxDisplacementFraction A"
    and "real (length (NoiseLayers A)) * MaxDisplacementFraction A < 1 - 1 / 10 ^ 4"
    and "Subdivisions A \<le> 12"
  shows "\<exists>Vertices0 Triangles.
       BuildBaseIcosphere (Subdivisions A) = Some (Vertices0, Triangles)
     \<and> (\<forall>u\<in>set Vertices0. SizeSquared u = 1)
     \<and> uploaded_mesh (GenerateAsteroid E A g0) =
         Some (map (\<lambda>V. vec_scale V
                  (fst (RandRange_float E (MinRadius A) (MaxRadius A) (snd (resolve_seeds E A g0)))))
             Vertices0, Triangles)"
proof -
  from BuildBaseIcosphere_Some [OF assms(3)]
  obtain Vertices0 Triangles where
    b: "BuildBaseIcosphere (Subdivisions A) = Some (Vertices0, Triangles)" by blast
  from BuildBaseIcosphere_unit [OF b]
  have u: "\<forall>u\<in>set Vertices0. SizeSquared u = 1" .
  from uploaded_mesh_sphere [OF assms(1) assms(2) b u, of E g0] b u
  show ?thesis by blast
qed

lemma snd_resolve_seeds_layers:
  "snd (resolve_seeds E (A\<lparr>NoiseLayers := Layers\<rparr>) g0) = snd (resolve_seeds E A g0)"
  by (simp add: resolve_seeds_def split: prod.splits)

text \<open>
  A displacement scales a vertex that is longer than the tolerance of \<^verbatim>\<open>Normalize\<close> by
  \<open>1 + d / |V|\<close>. While the clamp bounds of the layers sum to less than \<open>1 - 10\<^sup>-\<^sup>4\<close>, no
  vertex gets as short as that tolerance, the normalization after the layers gives back
  the base vertices, and the mesh handed over is the base sphere scaled by the chosen
  radius: the same mesh as without any layer, or with all intensities zero.
\<close>

lemma uploaded_mesh_noise_cancelled:
  assumes "0 \<le> MaxDisplacementFraction A"
    and "real (length (NoiseLayers A)) * MaxDisplacementFraction A < 1 - 1 / 10 ^ 4"
    and "BuildBaseIcosphere (Subdivisions A) = Some (Vertices0, Triangles)"
    and "\<forall>u\<in>set Vertices0. SizeSquared u = 1"
    and "R = fst (RandRange_float E (MinRadius A) (MaxRadius A) (snd (resolve_seeds E A g0)))"
  shows "uploaded_mesh (GenerateAsteroid E A g0) = Some (map (\<lambda>V. vec_scale V R) Vertices0, Triangles)
     \<and> uploaded_mesh (GenerateAsteroid E (A\<lparr>NoiseLayers := []\<rparr>) g0)
         = Some (map (\<lambda>V. vec_scale V R) Vertices0, Triangles)
     \<and> uploaded_mesh (GenerateAsteroid E
           (A\<lparr>NoiseLayers := map (\<lambda>Layer. Layer\<lparr>Intensity := 0\<rparr>) (NoiseLayers A)\<rparr>) g0)
         = Some (map (\<lambda>V. vec_scale V R) Vertices0, Triangles)
     \<and> (\<forall>u\<in>set Vertices0. Size (vec_scale u R) = \<bar>R\<bar>)
     \<and> (\<forall>V Layer ox oy oz. SMALL_NUMBER < SizeSquared V \<longrightarrow>
           displace_vertex E Layer ox oy oz (MaxDisplacementFraction A) V
             = vec_scale V (1 + vertex_displacement E Layer ox oy oz (MaxDisplacementFraction A) V
                                  / Size V))"
proof -
  let ?Z = "A\<lparr>NoiseLayers := []\<rparr>"
  have z: "0 \<le> MaxDisplacementFraction ?Z"
    "real (length (NoiseLayers ?Z)) * MaxDisplacementFraction ?Z < 1 - 1 / 10 ^ 4"
    "BuildBaseIcosphere (Subdivisions ?Z) = Some (Vertices0, Triangles)"
    using assms(1,3) by simp_all
  let ?I = "A\<lparr>NoiseLayers := map (\<lambda>Layer. Layer\<lparr>Intensity := 0\<rparr>) (NoiseLayers A)\<rparr>"
  have i: "0 \<le> MaxDisplacementFraction ?I"
    "real (length (NoiseLayers ?I)) * MaxDisplacementFraction ?I < 1 - 1 / 10 ^ 4"
    "BuildBaseIcosphere (Subdivisions ?I) = Some (Vertices0, Triangles)"
    using assms(1-3) by simp_all
  have "uploaded_mesh (GenerateAsteroid E A g0) = Some (map (\<lambda>V. vec_scale V R) Vertices0, Triangles)"
    using uploaded_mesh_sphere [OF assms(1-4), of E g0] assms(5) by simp
  moreover have "uploaded_mesh (GenerateAsteroid E ?Z g0)
      = Some (map (\<lambda>V. vec_scale V R) Vertices0, Triangles)"
    using uploaded_mesh_sphere [OF z assms(4), of E g0] assms(5)
    by (simp add: snd_resolve_seeds_layers)
  moreover have "uploaded_mesh (GenerateAsteroid E ?I g0)
      = Some (map (\<lambda>V. vec_scale V R) Vertices0, Triangles)"
    using uploaded_mesh_sphere [OF i assms(4), of E g0] assms(5)
    by (simp add: snd_resolve_seeds_layers)
  ultimately show ?thesis
    using assms(4) by (simp add: Size_unit_scaled displace_vertex_scale)
qed

lemma uploaded_mesh_noise_cancelled_demo:
  "0 \<le> MaxDisplacementFraction demo_actor
   \<and> real (length (NoiseLayers demo_actor)) * MaxDisplacementFraction demo_actor < 1 - 1 / 10 ^ 4
   \<and> BuildBaseIcosphere (Subdivisions demo_actor)
       = Some (NormalizeVertices icosahedron_vertices, faceIndices)
   \<and> unit_vertex1 \<in> set (NormalizeVertices icosahedron_vertices)
   \<and> SizeSquared unit_vertex1 = 1
   \<and> SMALL_NUMBER < SizeSquared unit_vertex1
   \<and> uploaded_mesh (GenerateAsteroid demo_engine demo_actor 0)
       = Some (map (\<lambda>V. vec_scale V 100) (NormalizeVertices icosahedron_vertices), faceIndices)
   \<and> uploaded_mesh (GenerateAsteroid demo_engine (demo_actor\<lparr>NoiseLayers := []\<rparr>) 0)
       = Some (map (\<lambda>V. vec_scale V 100) (NormalizeVertices icosahedron_vertices), faceIndices)
   \<and> uploaded_mesh (GenerateAsteroid demo_engine
         (demo_actor\<lparr>NoiseLayers := [\<lparr>Scale = 1 / 10, Intensity = 0, Seed = 7\<rparr>]\<rparr>) 0)
       = Some (map (\<lambda>V. vec_scale V 100) (NormalizeVertices icosahedron_vertices), faceIndices)
   \<and> Size (vec_scale unit_vertex1 100) = 100
   \<and> displace_vertex demo_engine \<lparr>Scale = 1 / 10, Intensity = 4, Seed = 7\<rparr> 0 0 0 (1 / 2) unit_vertex1
       = vec_scale unit_vertex1 (1 / 2)"
proof -
  have m: "0 \<le> MaxDisplacementFraction demo_actor"
    "real (length (NoiseLayers demo_actor)) * MaxDisplacementFraction demo_actor < 1 - 1 / 10 ^ 4"
    by (simp_all add: demo_actor_def)
  have b: "BuildBaseIcosphere (Subdivisions demo_actor)
       = Some (NormalizeVertices icosahedron_vertices, faceIndices)"
    by (simp add: demo_actor_def BuildBaseIcosphere_0)
  have r: "100 = fst (RandRange_float demo_engine (MinRadius demo_actor) (MaxRadius demo_actor)
      (snd (resolve_seeds demo_engine demo_actor 0)))"
    by (simp add: RandRange_float_def demo_actor_def split: prod.splits)
  have mem: "unit_vertex1 \<in> set (NormalizeVertices icosahedron_vertices)"
    unfolding nth_level0_1 [symmetric]
    by (rule nth_mem) (simp add: length_NormalizeVertices length_icosahedron_vertices)
  have big: "SMALL_NUMBER < SizeSquared unit_vertex1"
    using SMALL_NUMBER_less_one by (simp add: unit_vertex1_unit)
  have md: "MaxDisplacementFraction demo_actor = 1 / 2"
    by (simp add: demo_actor_def)
  have sz: "Size unit_vertex1 = 1"
    by (simp add: Size_def unit_vertex1_unit)
  have d: "vertex_displacement demo_engine \<lparr>Scale = 1 / 10, Intensity = 4, Seed = 7\<rparr> 0 0 0 (1 / 2)
      unit_vertex1 = - (1 / 2)"
    using demo_displacement_scaled [of "1 / 2" 1 "\<lparr>Scale = 1 / 10, Intensity = 4, Seed = 7\<rparr>" 0 0 0]
    by (simp add: vec_scale_one)
  have zi: "map (\<lambda>Layer. Layer\<lparr>Intensity := 0\<rparr>) (NoiseLayers demo_actor)
      = [\<lparr>Scale = 1 / 10, Intensity = 0, Seed = 7\<rparr>]"
    by (simp add: demo_actor_def)
  from uploaded_mesh_noise_cancelled [OF m b level0_unit r] mem big m b
  show ?thesis
    by (simp add: unit_vertex1_unit md sz d zi)
qed

text \<open>
  Claim C2, evaluated. The sliver actor has one layer and the clamp bound 0.99995, so
  the clamp bounds sum to less than 1, and the displacement of the second vertex of the
  icosahedron (with the offsets 875, 0 and 125 that the layer draws) is above minus its
  length: the update keeps the direction of the vertex and leaves it at the length
  0.00005. The squared length is below \<^verbatim>\<open>SMALL_NUMBER\<close>, so \<^verbatim>\<open>NormalizeVertices\<close> does not
  bring the vertex back to unit length, and it is handed over at the distance 0.005 from
  the origin, while the run without layers hands it over at the chosen radius 100.
\<close>

theorem GenerateAsteroid_noise_not_cancelled:
  "0 \<le> MaxDisplacementFraction sliver_actor
   \<and> real (length (NoiseLayers sliver_actor)) * MaxDisplacementFraction sliver_actor < 1
   \<and> - Size unit_vertex1
       < vertex_displacement demo_engine \<lparr>Scale = 1 / 10, Intensity = 4, Seed = 7\<rparr> 875 0 125
           (MaxDisplacementFraction sliver_actor) unit_vertex1
   \<and> uploaded_vertex (GenerateAsteroid demo_engine sliver_actor 0) 1
       = Some (vec_scale unit_vertex1 (1 / 200))
   \<and> uploaded_vertex (GenerateAsteroid demo_engine (sliver_actor\<lparr>NoiseLayers := []\<rparr>) 0) 1
       = Some (vec_scale unit_vertex1 100)
   \<and> vec_scale unit_vertex1 (1 / 200) \<noteq> vec_scale unit_vertex1 100"
proof -
  let ?Z = "sliver_actor\<lparr>NoiseLayers := []\<rparr>"
  have m: "0 \<le> MaxDisplacementFraction sliver_actor"
    "real (length (NoiseLayers sliver_actor)) * MaxDisplacementFraction sliver_actor < 1"
    by (simp_all add: sliver_actor_def demo_actor_def)
  have "SizeSquared (vec_scale unit_vertex1 (1 - 99995 / 100000)) \<le> SMALL_NUMBER"
    by (simp add: SizeSquared_vec_scale unit_vertex1_unit SMALL_NUMBER_def)
  then have "Normalize (vec_scale unit_vertex1 (1 - 99995 / 100000))
      = vec_scale unit_vertex1 (1 - 99995 / 100000)"
    by (simp add: Normalize_def Let_def)
  then have a: "uploaded_vertex (GenerateAsteroid demo_engine sliver_actor 0) 1
       = Some (vec_scale unit_vertex1 (1 / 200))"
    using demo_run_vertex1 [of "99995 / 100000"]
    by (simp add: sliver_actor_def vec_scale_vec_scale)
  have z: "0 \<le> MaxDisplacementFraction ?Z"
    "real (length (NoiseLayers ?Z)) * MaxDisplacementFraction ?Z < 1 - 1 / 10 ^ 4"
    "BuildBaseIcosphere (Subdivisions ?Z) = Some (NormalizeVertices icosahedron_vertices, faceIndices)"
    by (simp_all add: sliver_actor_def demo_actor_def BuildBaseIcosphere_0)
  have r: "fst (RandRange_float demo_engine (MinRadius ?Z) (MaxRadius ?Z)
      (snd (resolve_seeds demo_engine ?Z 0))) = 100"
    by (simp add: RandRange_float_def sliver_actor_def demo_actor_def split: prod.splits)
  have b: "uploaded_vertex (GenerateAsteroid demo_engine ?Z 0) 1 = Some (vec_scale unit_vertex1 100)"
    using uploaded_mesh_sphere [OF z level0_unit, of demo_engine 0]
    unfolding r
    by (simp add: uploaded_vertex_def length_NormalizeVertices length_icosahedron_vertices
        nth_NormalizeVertices Normalize_icosahedron_1)
  have "X unit_vertex1 \<noteq> 0"
    using golden_t_gt_one by (simp add: unit_vertex1_components add_nonneg_eq_0_iff)
  then have "X (vec_scale unit_vertex1 (1 / 200)) \<noteq> X (vec_scale unit_vertex1 100)"
    by (simp add: vec_scale_def)
  then have c: "vec_scale unit_vertex1 (1 / 200) \<noteq> vec_scale unit_vertex1 100"
    by metis
  have "vertex_displacement demo_engine \<lparr>Scale = 1 / 10, Intensity = 4, Seed = 7\<rparr> 875 0 125
      (99995 / 100000) unit_vertex1 = - (99995 / 100000)"
    using demo_displacement_scaled [of "99995 / 100000" 1
        "\<lparr>Scale = 1 / 10, Intensity = 4, Seed = 7\<rparr>" 875 0 125]
    by (simp add: vec_scale_one)
  then have d: "- Size unit_vertex1
       < vertex_displacement demo_engine \<lparr>Scale = 1 / 10, Intensity = 4, Seed = 7\<rparr> 875 0 125
           (MaxDisplacementFraction sliver_actor) unit_vertex1"
    by (simp add: sliver_actor_def Size_def unit_vertex1_unit)
  from m d a b c show ?thesis by simp
qed


end
